theory Spec2Isabelle
  imports Complex_Main "HOL-Library.AList"
begin

section \<open>JavaScript strings\<close>

text \<open>
  A JavaScript string is a sequence of UTF-16 code units; a code unit is modelled as a
  natural number. \<open>str\<close> embeds an ASCII literal.
\<close>

type_synonym jsstring = "nat list"

definition str :: "string \<Rightarrow> jsstring" where
  "str s = map of_char s"

text \<open>
  The class \<open>\s\<close> of a JavaScript regular expression, which is also the set of code
  units that \<open>trim\<close> strips: tab, LF, VT, FF, CR, space, U+00A0, U+1680,
  U+2000 to U+200A, U+2028, U+2029, U+202F, U+205F, U+3000 and U+FEFF.
\<close>

definition is_space :: "nat \<Rightarrow> bool" where
  "is_space c \<longleftrightarrow>
     (9 \<le> c \<and> c \<le> 13) \<or> c = 32 \<or> c = 160 \<or> c = 5760 \<or> (8192 \<le> c \<and> c \<le> 8202) \<or>
     c = 8232 \<or> c = 8233 \<or> c = 8239 \<or> c = 8287 \<or> c = 12288 \<or> c = 65279"

text \<open>The class \<open>[a-z0-9]\<close>.\<close>

definition is_lower_alnum :: "nat \<Rightarrow> bool" where
  "is_lower_alnum c \<longleftrightarrow> (97 \<le> c \<and> c \<le> 122) \<or> (48 \<le> c \<and> c \<le> 57)"

text \<open>
  \<open>String.prototype.toLowerCase\<close>, a built-in of the runtime. \<open>A\<close> to \<open>Z\<close> go to
  \<open>a\<close> to \<open>z\<close>; U+0130 goes to \<open>i\<close> followed by U+0307 and U+212A (the Kelvin sign) to
  \<open>k\<close>: these are the only code points outside ASCII whose lower case holds an ASCII
  code unit. Every other code unit is kept. For a cased letter outside ASCII that is not
  what the built-in gives, but its lower case consists of code units outside ASCII that
  are not white space, as the letter itself does: \<open>norm\<close>, which turns each of them into
  a space, gives the same string either way. On ASCII text the function is the built-in.
\<close>

definition lower_unit :: "nat \<Rightarrow> jsstring" where
  "lower_unit c =
     (if 65 \<le> c \<and> c \<le> 90 then [c + 32]
      else if c = 304 then [105, 775]
      else if c = 8490 then [107]
      else [c])"

definition toLowerCase :: "jsstring \<Rightarrow> jsstring" where
  "toLowerCase s = concat (map lower_unit s)"

text \<open>
  \<open>s.replace(re, ...)\<close> for a regular expression with the \<open>g\<close> flag: the scan goes
  from left to right; where the expression matches at the current position, the match
  is replaced and the scan goes on behind it, and otherwise the code unit is kept. The
  matcher \<open>m\<close> is the expression: on the rest of the string it gives the replacement
  and how many code units the match takes after its first one. None of the expressions
  of this program matches the empty string or looks behind the current position.
\<close>

function replace_all :: "(jsstring \<Rightarrow> (jsstring \<times> nat) option) \<Rightarrow> jsstring \<Rightarrow> jsstring" where
  "replace_all m [] = []"
| "replace_all m (c # cs) =
     (case m (c # cs) of
        None \<Rightarrow> c # replace_all m cs
      | Some (rep, k) \<Rightarrow> rep @ replace_all m (drop k cs))"
  by pat_completeness auto
termination
  by (relation "measure (\<lambda>(m, s). length s)") auto

text \<open>\<open>/[^a-z0-9\s]/\<close>: one code unit that is neither in \<open>[a-z0-9]\<close> nor white space.\<close>

definition re_not_alnum_space :: "jsstring \<Rightarrow> (jsstring \<times> nat) option" where
  "re_not_alnum_space s =
     (case s of
        [] \<Rightarrow> None
      | c # _ \<Rightarrow> if is_lower_alnum c \<or> is_space c then None else Some ([32], 0))"

text \<open>\<open>/\s+/\<close>: a maximal run of white space (the quantifier is greedy).\<close>

definition re_spaces :: "jsstring \<Rightarrow> (jsstring \<times> nat) option" where
  "re_spaces s =
     (case s of
        [] \<Rightarrow> None
      | c # cs \<Rightarrow> if is_space c then Some ([32], length (takeWhile is_space cs)) else None)"

text \<open>\<open>String.prototype.trim\<close>.\<close>

definition trim :: "jsstring \<Rightarrow> jsstring" where
  "trim s = rev (dropWhile is_space (rev (dropWhile is_space s)))"

section \<open>Helpers for anti-repeat\<close>

text \<open>
  \<open>function norm(s) { return String(s).toLowerCase().replace(/[^a-z0-9\s]/g, ' ')
  .replace(/\s+/g, ' ').trim(); }\<close>
\<close>

definition norm_str :: "jsstring \<Rightarrow> jsstring" where
  "norm_str s = trim (replace_all re_spaces (replace_all re_not_alnum_space (toLowerCase s)))"


text \<open>
  \<open>const STOP = new Set('the a an ... any'.split(/\s+/))\<close>: the stop words, as a list.
\<close>

definition STOP :: "jsstring list" where
  "STOP = map str [
    ''the'', ''a'', ''an'', ''is'', ''are'', ''was'', ''were'', ''do'', ''does'', ''did'',
    ''has'', ''have'', ''had'', ''of'', ''to'', ''in'', ''on'', ''for'', ''with'',
    ''without'', ''about'', ''from'', ''at'', ''by'', ''as'', ''be'', ''been'', ''being'',
    ''character'', ''person'', ''human'', ''someone'', ''somebody'', ''male'', ''female'',
    ''man'', ''woman'', ''guy'', ''girl'', ''boy'', ''child'', ''adult'', ''old'',
    ''young'', ''age'', ''big'', ''small'', ''same'', ''similar'', ''repeat'',
    ''repeated'', ''repeating'', ''any'']"

text \<open>
  \<open>s.split(' ')\<close>: the pieces between single spaces; the empty string gives one empty
  piece.
\<close>

fun split_on :: "nat \<Rightarrow> jsstring \<Rightarrow> jsstring list" where
  "split_on d [] = [[]]"
| "split_on d (c # cs) =
     (if c = d then [] # split_on d cs
      else (case split_on d cs of [] \<Rightarrow> [[c]] | w # ws \<Rightarrow> (c # w) # ws))"

text \<open>\<open>function tokens(s) { return norm(s).split(' ').filter(w => w && !STOP.has(w)); }\<close>\<close>

definition tokens :: "jsstring \<Rightarrow> jsstring list" where
  "tokens s = filter (\<lambda>w. w \<noteq> [] \<and> w \<notin> set STOP) (split_on 32 (norm_str s))"

text \<open>
  \<open>function jaccard(a, b)\<close>. \<open>new Set(a)\<close> is \<open>a\<close> without its duplicates, and the loop
  counts the elements of \<open>A\<close> that \<open>B\<close> has. The quotient \<open>inter / union\<close> is a double in
  the source and is kept exact here; see \<open>isRepeat\<close> for the one place it is used.
\<close>

definition jaccard :: "jsstring list \<Rightarrow> jsstring list \<Rightarrow> rat" where
  "jaccard xs ys =
     (let A = remdups xs; B = remdups ys;
          inter = length (filter (\<lambda>x. x \<in> set B) A);
          union = length A + length B - inter
      in if union \<noteq> 0 then of_nat inter / of_nat union else 0)"

text \<open>
  \<open>s.startsWith(p)\<close> and \<open>s.includes(p)\<close> (\<open>includes\<close> is a keyword of Isabelle, hence the
  name).
\<close>

definition startsWith :: "jsstring \<Rightarrow> jsstring \<Rightarrow> bool" where
  "startsWith s p \<longleftrightarrow> take (length p) s = p"

fun includesStr :: "jsstring \<Rightarrow> jsstring \<Rightarrow> bool" where
  "includesStr [] p = (p = [])"
| "includesStr (c # cs) p = (startsWith (c # cs) p \<or> includesStr cs p)"

text \<open>A history entry \<open>{ q, a }\<close>: a question asked before and the player's answer.\<close>

record entry =
  q :: jsstring
  a :: jsstring

text \<open>
  \<open>function isRepeat(question, history)\<close>: the loop over the history returns at the first
  entry that matches. The test \<open>sim >= 0.7\<close> compares the rounded quotient with the double
  nearest to 0.7. Rounding is monotone, so a quotient of at least 7/10 passes; a quotient
  \<open>inter / union\<close> below 7/10 is below it by at least \<open>1 / (10 * union)\<close>, which is more
  than the rounding error of either side whenever \<open>union\<close> is under \<open>10 ^ 15\<close>, far more
  tokens than a string can hold. So the test is the exact comparison with 7/10.
\<close>

fun isRepeat :: "jsstring \<Rightarrow> entry list \<Rightarrow> bool" where
  "isRepeat question [] = False"
| "isRepeat question (h # history) =
     (let tq = tokens question; t = tokens (q h); sim = jaccard tq t in
      if sim \<ge> 7 / 10 then True
      else
        let x = norm_str question; y = norm_str (q h) in
        if includesStr x y \<or> includesStr y x then True
        else isRepeat question history)"

text \<open>
  \<open>xs.join(sep)\<close>, the decimal digits of a natural number (what a template literal
  prints for \<open>i + 1\<close>), and a string between double quotes (code unit 34).
\<close>

fun join :: "jsstring \<Rightarrow> jsstring list \<Rightarrow> jsstring" where
  "join sep [] = []"
| "join sep [x] = x"
| "join sep (x # y # r) = x @ sep @ join sep (y # r)"

function decimal :: "nat \<Rightarrow> jsstring" where
  "decimal n = (if n < 10 then [48 + n] else decimal (n div 10) @ [48 + n mod 10])"
  by pat_completeness auto
termination
  by (relation "measure (\<lambda>n. n)") auto

definition quoted :: "jsstring \<Rightarrow> jsstring" where
  "quoted s = [34] @ s @ [34]"

section \<open>Values and exceptions\<close>

text \<open>
  A number of JavaScript: a double is a rational, an infinity or NaN; the sign of zero is
  not kept (nothing here tells \<open>-0\<close> from \<open>0\<close>). A value: what \<open>JSON.parse\<close> builds, and
  \<open>undefined\<close> for a property that is missing. An object is the list of its properties.
\<close>

datatype jsnum = NaN | PosInf | NegInf | Fin rat

datatype jsval =
    Undefined
  | Null
  | Bool bool
  | Num jsnum
  | Str jsstring
  | Arr "jsval list"
  | Obj "(jsstring \<times> jsval) list"

type_synonym jsobject = "(jsstring \<times> jsval) list"

text \<open>
  An exception with its message: \<open>throw new Error('Missing question')\<close>, or a \<open>TypeError\<close>
  that a built-in throws.
\<close>

datatype error = Error (message: jsstring) | TypeError (message: jsstring)

text \<open>
  The built-ins of the runtime that the program calls and that are not modelled here:
  \<open>JSON.parse\<close> (\<open>Inl\<close> when it throws), the conversion of a finite number to a string,
  the conversion of a string to a number, and \<open>String.prototype.toLowerCase\<close> on all of
  Unicode, for the places where the lower-cased text itself is shown (\<open>buildUser\<close>;
  inside \<open>norm\<close> the function \<open>toLowerCase\<close> above gives the same result).
\<close>

record runtime =
  JSON_parse :: "jsstring \<Rightarrow> error + jsval"
  Number_toString :: "rat \<Rightarrow> jsstring"
  StringToNumber :: "jsstring \<Rightarrow> jsnum"
  String_toLowerCase :: "jsstring \<Rightarrow> jsstring"

text \<open>\<open>obj.k\<close> and \<open>obj.k = v\<close> (a new property goes to the end).\<close>

definition get :: "jsobject \<Rightarrow> jsstring \<Rightarrow> jsval" where
  "get obj k = (case map_of obj k of None \<Rightarrow> Undefined | Some v \<Rightarrow> v)"

definition put :: "jsobject \<Rightarrow> jsstring \<Rightarrow> jsval \<Rightarrow> jsobject" where
  "put obj k v = AList.update k v obj"

text \<open>Truthiness: what \<open>!v\<close>, \<open>v || d\<close> and \<open>v ? x : y\<close> test.\<close>

fun truthy :: "jsval \<Rightarrow> bool" where
  "truthy Undefined = False"
| "truthy Null = False"
| "truthy (Bool b) = b"
| "truthy (Num n) = (n \<noteq> NaN \<and> n \<noteq> Fin 0)"
| "truthy (Str s) = (s \<noteq> [])"
| "truthy (Arr xs) = True"
| "truthy (Obj ps) = True"

definition or_else :: "jsval \<Rightarrow> jsval \<Rightarrow> jsval" where
  "or_else v d = (if truthy v then v else d)"

text \<open>
  The results of a list of computations, or the first exception among them.
\<close>

fun all_results :: "(error + 'a) list \<Rightarrow> error + 'a list" where
  "all_results [] = Inr []"
| "all_results (Inl e # rs) = Inl e"
| "all_results (Inr x # rs) = (case all_results rs of Inl e \<Rightarrow> Inl e | Inr xs \<Rightarrow> Inr (x # xs))"

text \<open>
  \<open>String(v)\<close>. An array prints its elements joined by commas, \<open>null\<close> and \<open>undefined\<close>
  among them as the empty string. An object is converted by its \<open>toString\<close>: that of
  \<open>Object.prototype\<close>, which prints \<open>[object Object]\<close>, unless the object has a property
  \<open>toString\<close> of its own. What \<open>JSON.parse\<close> builds is never callable, so with such a
  property no method gives a primitive value (\<open>valueOf\<close> returns the object itself or
  is not callable either) and the conversion throws a \<open>TypeError\<close>, with this message in
  V8. An exception in an element of an array leaves the conversion of the array.
\<close>

fun String :: "runtime \<Rightarrow> jsval \<Rightarrow> error + jsstring"
  and String_elem :: "runtime \<Rightarrow> jsval \<Rightarrow> error + jsstring" where
  "String rt Undefined = Inr (str ''undefined'')"
| "String rt Null = Inr (str ''null'')"
| "String rt (Bool b) = Inr (if b then str ''true'' else str ''false'')"
| "String rt (Num NaN) = Inr (str ''NaN'')"
| "String rt (Num PosInf) = Inr (str ''Infinity'')"
| "String rt (Num NegInf) = Inr (str ''-Infinity'')"
| "String rt (Num (Fin r)) = Inr (Number_toString rt r)"
| "String rt (Str s) = Inr s"
| "String rt (Arr xs) =
     (case all_results (map (String_elem rt) xs) of
        Inl e \<Rightarrow> Inl e
      | Inr ss \<Rightarrow> Inr (join (str '','') ss))"
| "String rt (Obj ps) =
     (if map_of ps (str ''toString'') \<noteq> None
      then Inl (TypeError (str ''Cannot convert object to primitive value''))
      else Inr (str ''[object Object]''))"
| "String_elem rt Undefined = Inr []"
| "String_elem rt Null = Inr []"
| "String_elem rt (Bool b) = String rt (Bool b)"
| "String_elem rt (Num n) = String rt (Num n)"
| "String_elem rt (Str s) = String rt (Str s)"
| "String_elem rt (Arr xs) = String rt (Arr xs)"
| "String_elem rt (Obj ps) = String rt (Obj ps)"

text \<open>
  \<open>Number(v)\<close>: an array or an object is first converted to a primitive value, which is
  its string by the rules above (\<open>valueOf\<close> gives no primitive value for either), with
  the same \<open>TypeError\<close>. \<open>Number.isFinite(v)\<close> converts nothing: it is false for what is
  not a number. \<open>Math.min\<close> and \<open>Math.max\<close> of two numbers.
\<close>

fun Number :: "runtime \<Rightarrow> jsval \<Rightarrow> error + jsnum" where
  "Number rt Undefined = Inr NaN"
| "Number rt Null = Inr (Fin 0)"
| "Number rt (Bool b) = Inr (if b then Fin 1 else Fin 0)"
| "Number rt (Num n) = Inr n"
| "Number rt (Str s) = Inr (StringToNumber rt s)"
| "Number rt (Arr xs) =
     (case String rt (Arr xs) of Inl e \<Rightarrow> Inl e | Inr s \<Rightarrow> Inr (StringToNumber rt s))"
| "Number rt (Obj ps) =
     (case String rt (Obj ps) of Inl e \<Rightarrow> Inl e | Inr s \<Rightarrow> Inr (StringToNumber rt s))"

fun Number_isFinite :: "jsval \<Rightarrow> bool" where
  "Number_isFinite (Num (Fin r)) = True"
| "Number_isFinite v = False"

fun num_le :: "jsnum \<Rightarrow> jsnum \<Rightarrow> bool" where
  "num_le NaN y = False"
| "num_le x NaN = False"
| "num_le NegInf y = True"
| "num_le x PosInf = True"
| "num_le (Fin r) (Fin s) = (r \<le> s)"
| "num_le x y = False"

definition Math_min :: "jsnum \<Rightarrow> jsnum \<Rightarrow> jsnum" where
  "Math_min x y = (if x = NaN \<or> y = NaN then NaN else if num_le x y then x else y)"

definition Math_max :: "jsnum \<Rightarrow> jsnum \<Rightarrow> jsnum" where
  "Math_max x y = (if x = NaN \<or> y = NaN then NaN else if num_le x y then y else x)"

section \<open>Prompt builders\<close>

text \<open>
  \<open>function buildSystem(domain)\<close>: thirteen pieces joined by a space. Code unit 8805 is
  the sign for "greater than or equal".
\<close>

definition buildSystem :: "jsstring \<Rightarrow> jsstring" where
  "buildSystem domain = join (str '' '') [
     str ''You are an expert reasoning agent playing a 20 Questions (Akinator-style) game.'',
     str ''Your goal is to identify the hidden target by asking strategic yes/no questions.'',
     str ''Domain: '' @ domain @ str ''. Ask ONE question per turn.'',
     str ''Use deductive reasoning based on all previous questions and answers. Each new question must narrow down the space of possibilities.'',
     str ''Ask questions that explore new dimensions (occupation, nationality, time period, traits, media type, etc.).'',
     str ''Avoid repeating or rephrasing previous questions.'',
     str ''When you have enough information (confidence '' @ [8805] @ str '' 0.75), propose a guess.'',
     str ''If forced final, give your best guess.'',
     str ''Output ONLY strict JSON (no prose):'',
     str ''{'' @ quoted (str ''type'') @ str '':'' @ quoted (str ''ask'') @ str '','' @
       quoted (str ''question'') @ str '':'' @ quoted (str ''<short yes/no question>'') @
       str ''} OR'',
     str ''{'' @ quoted (str ''type'') @ str '':'' @ quoted (str ''guess'') @ str '','' @
       quoted (str ''guess'') @ str '':'' @ quoted (str ''<one candidate>'') @ str '','' @
       quoted (str ''confidence'') @ str '':0.0} OR'',
     str ''{'' @ quoted (str ''type'') @ str '':'' @ quoted (str ''final'') @ str '','' @
       quoted (str ''guess'') @ str '':'' @ quoted (str ''<best candidate>'') @ str '','' @
       quoted (str ''confidence'') @ str '':0.0}'',
     str ''Never include explanations, markdown, or comments.'']"

text \<open>
  The argument of \<open>buildUser\<close>, \<open>{ domain, history, turns, forceFinal, hint }\<close>, with the
  types the specification gives its fields.
\<close>

record prompt_context =
  domain :: jsstring
  history :: "entry list"
  turns :: nat
  forceFinal :: bool
  hint :: jsstring

text \<open>
  The constant \<open>structuredFacts\<close> of \<open>buildUser\<close>: each entry, with its index, becomes
  \<open>Q${i + 1}: ${q} -> ${a}\<close> where \<open>q\<close> and \<open>a\<close> are \<open>x.q.toLowerCase()\<close> and
  \<open>x.a.toLowerCase()\<close>, by the built-in of the runtime; the lines are joined by a line
  feed; an empty result (falsy) gives the placeholder. The arrow is code unit 8594.
\<close>

definition fact_line :: "runtime \<Rightarrow> nat \<Rightarrow> entry \<Rightarrow> jsstring" where
  "fact_line rt i x =
     (let lq = String_toLowerCase rt (q x); la = String_toLowerCase rt (a x)
      in str ''Q'' @ decimal (i + 1) @ str '': '' @ lq @ str '' '' @ [8594] @ str '' '' @ la)"

definition structuredFacts :: "runtime \<Rightarrow> entry list \<Rightarrow> jsstring" where
  "structuredFacts rt hist =
     (let joined = join [10] (map (\<lambda>(i, x). fact_line rt i x) (enumerate 0 hist))
      in if joined \<noteq> [] then joined else str ''(no previous questions)'')"

text \<open>\<open>function buildUser({ domain, history, turns, forceFinal, hint })\<close>.\<close>

definition buildUser :: "runtime \<Rightarrow> prompt_context \<Rightarrow> jsstring" where
  "buildUser rt ctx = join [10] [
     str ''We are playing 20 Questions. Domain: '' @ domain ctx @ str ''.'',
     str ''Here are all facts discovered so far:'',
     structuredFacts rt (history ctx),
     [],
     str ''Based on these facts, reason logically to choose the next most informative question.'',
     str ''Your question should reduce uncertainty the most and move closer to a confident guess.'',
     str ''Focus on attributes not yet covered (e.g. nationality, occupation, historical era, public role, media type, field of work, notable achievements).'',
     (if forceFinal ctx
      then str ''forceFinal=true '' @ [8594] @ str '' make your best final guess.''
      else str ''forceFinal=false '' @ [8594] @ str '' ask the next question logically.''),
     (if hint ctx \<noteq> [] then str ''Player hint: '' @ hint ctx else str ''(no hint)''),
     str ''Return ONLY strict JSON.'']"

section \<open>Response interpreter\<close>

text \<open>
  Matching without regard to case (the \<open>i\<close> flag, no \<open>u\<close> flag): both code units are
  canonicalized by \<open>toUpperCase\<close>, and a code unit outside ASCII is never taken to one
  inside. For the ASCII patterns of this program that is ASCII upper-casing.
\<close>

definition upper_ascii :: "nat \<Rightarrow> nat" where
  "upper_ascii c = (if 97 \<le> c \<and> c \<le> 122 then c - 32 else c)"

definition startsWith_ci :: "jsstring \<Rightarrow> jsstring \<Rightarrow> bool" where
  "startsWith_ci s p \<longleftrightarrow> map upper_ascii (take (length p) s) = map upper_ascii p"

text \<open>The first position at which \<open>P\<close> holds of the rest of the string.\<close>

fun first_match :: "(jsstring \<Rightarrow> bool) \<Rightarrow> jsstring \<Rightarrow> nat option" where
  "first_match P [] = (if P [] then Some 0 else None)"
| "first_match P (c # cs) =
     (if P (c # cs) then Some 0 else map_option Suc (first_match P cs))"

text \<open>
  \<open>/<think>[\s\S]*?<\/think>/gi\<close>: the opening tag, then as few code units as possible
  (of any kind), then the closing tag; no match where no closing tag follows.
\<close>

definition re_think :: "jsstring \<Rightarrow> (jsstring \<times> nat) option" where
  "re_think s =
     (if startsWith_ci s (str ''<think>'') then
        (case first_match (\<lambda>r. startsWith_ci r (str ''</think>'')) (drop 7 s) of
           None \<Rightarrow> None
         | Some j \<Rightarrow> Some ([], 7 + j + 8 - 1))
      else None)"

text \<open>The fences: three backquotes with \<open>json\<close> behind them if it is there (\<open>gi\<close>), and
  three backquotes (\<open>g\<close>).\<close>

definition re_fence_json :: "jsstring \<Rightarrow> (jsstring \<times> nat) option" where
  "re_fence_json s =
     (if startsWith s [96, 96, 96] then
        (if startsWith_ci (drop 3 s) (str ''json'') then Some ([], 6) else Some ([], 2))
      else None)"

definition re_fence :: "jsstring \<Rightarrow> (jsstring \<times> nat) option" where
  "re_fence s = (if startsWith s [96, 96, 96] then Some ([], 2) else None)"

text \<open>
  \<open>/,\s*([}\]])/g\<close> with the replacement \<open>$1\<close>: a comma, white space, and a closing brace
  (125) or bracket (93), which alone is kept.
\<close>

definition re_trailing_comma :: "jsstring \<Rightarrow> (jsstring \<times> nat) option" where
  "re_trailing_comma s =
     (case s of
        [] \<Rightarrow> None
      | c # cs \<Rightarrow>
          if c = 44 then
            (case dropWhile is_space cs of
               [] \<Rightarrow> None
             | d # _ \<Rightarrow>
                 if d = 125 \<or> d = 93 then Some ([d], length (takeWhile is_space cs) + 1)
                 else None)
          else None)"

text \<open>
  \<open>/:\s*'([^']*)'/g\<close> with the replacement \<open>: "p1"\<close>: a colon, white space, and a text
  between two single quotes (39) that holds none.
\<close>

definition re_single_quoted :: "jsstring \<Rightarrow> (jsstring \<times> nat) option" where
  "re_single_quoted s =
     (case s of
        [] \<Rightarrow> None
      | c # cs \<Rightarrow>
          if c = 58 then
            (case dropWhile is_space cs of
               [] \<Rightarrow> None
             | d # ds \<Rightarrow>
                 if d = 39 then
                   (let p1 = takeWhile (\<lambda>x. x \<noteq> 39) ds in
                    case dropWhile (\<lambda>x. x \<noteq> 39) ds of
                      [] \<Rightarrow> None
                    | _ # _ \<Rightarrow>
                        Some (str '': '' @ quoted p1,
                              length (takeWhile is_space cs) + 1 + length p1 + 1))
                 else None)
          else None)"

text \<open>The curly double quotes U+201C and U+201D, each replaced by a straight one.\<close>

definition re_smart_quote :: "jsstring \<Rightarrow> (jsstring \<times> nat) option" where
  "re_smart_quote s =
     (case s of
        [] \<Rightarrow> None
      | c # _ \<Rightarrow> if c = 8220 \<or> c = 8221 then Some ([34], 0) else None)"

text \<open>\<open>s.indexOf(c)\<close> and \<open>s.lastIndexOf(c)\<close> for one code unit (\<open>-1\<close> when it is absent),
  and \<open>s.slice(start, end)\<close>.\<close>

fun indexOf :: "jsstring \<Rightarrow> nat \<Rightarrow> int" where
  "indexOf [] c = -1"
| "indexOf (x # xs) c =
     (if x = c then 0 else (let i = indexOf xs c in if i = -1 then -1 else i + 1))"

definition lastIndexOf :: "jsstring \<Rightarrow> nat \<Rightarrow> int" where
  "lastIndexOf s c =
     (let i = indexOf (rev s) c in if i = -1 then -1 else int (length s) - 1 - i)"

definition slice :: "jsstring \<Rightarrow> int \<Rightarrow> int \<Rightarrow> jsstring" where
  "slice s start end =
     (let len = int (length s);
          from = (if start < 0 then max (len + start) 0 else min start len);
          to = (if end < 0 then max (len + end) 0 else min end len)
      in take (nat (to - from)) (drop (nat from) s))"

text \<open>
  \<open>function extractJson(text)\<close>. The argument is a string, or \<open>None\<close> for \<open>null\<close> and
  \<open>undefined\<close>; the result is the parsed value, \<open>Null\<close> for \<open>return null\<close>, or \<open>Inl\<close> for
  an exception that leaves the function. The two \<open>try\<close> blocks catch what \<open>JSON.parse\<close>
  throws.
\<close>

definition extractJson :: "runtime \<Rightarrow> jsstring option \<Rightarrow> error + jsval" where
  "extractJson rt text0 =
     (case text0 of
        None \<Rightarrow> Inr Null
      | Some t0 \<Rightarrow>
          if t0 = [] then Inr Null
          else
            let text = trim (replace_all re_fence (replace_all re_fence_json
                         (replace_all re_think t0)));
                start = indexOf text 123;
                end = lastIndexOf text 125
            in if start = -1 \<or> end = -1 then Inr Null
               else
                 let jsonCandidate = slice text start (end + 1) in
                 (case JSON_parse rt jsonCandidate of
                    Inr v \<Rightarrow> Inr v
                  | Inl err \<Rightarrow>
                      let cleaned = replace_all re_smart_quote (replace_all re_single_quoted
                                      (replace_all re_trailing_comma jsonCandidate))
                      in (case JSON_parse rt cleaned of
                            Inr v \<Rightarrow> Inr v
                          | Inl err2 \<Rightarrow> Inr Null)))"

section \<open>The step endpoint\<close>

text \<open>A message \<open>{ role, content }\<close> of the conversation sent to the model.\<close>

datatype role = System | User

record message =
  role :: role
  content :: jsstring

text \<open>
  How one pass through the body of the \<open>while\<close> loop ends when it does not throw:
  \<open>continue\<close>, with the object and the message pushed before it, or \<open>break\<close>, with the
  object.
\<close>

datatype body_result = Continue jsobject message | Break jsobject

text \<open>
  The body of the loop behind \<open>obj = await callFireworks(messages)\<close>: the branch on
  \<open>obj.type\<close>, the assignments to \<open>obj.question\<close>, \<open>obj.guess\<close> and \<open>obj.confidence\<close>, the
  three \<open>throw\<close> statements, and the exceptions of the conversions \<open>String(...)\<close> and
  \<open>Number(...)\<close>, which leave the body as they are. \<open>isRepeat\<close> converts its argument with
  \<open>String\<close> (in \<open>norm\<close>), and so does the template literal of the corrective message.
\<close>

definition loop_body :: "runtime \<Rightarrow> entry list \<Rightarrow> jsobject \<Rightarrow> error + body_result" where
  "loop_body rt hist obj0 =
     (if get obj0 (str ''type'') = Str (str ''ask'') then
        (case String rt (or_else (get obj0 (str ''question'')) (Str [])) of
           Inl e \<Rightarrow> Inl e
         | Inr s \<Rightarrow>
             let obj = put obj0 (str ''question'') (Str (slice s 0 200))
             in if \<not> truthy (get obj (str ''question'')) then Inl (Error (str ''Missing question''))
                else
                  (case String rt (get obj (str ''question'')) of
                     Inl e \<Rightarrow> Inl e
                   | Inr question \<Rightarrow>
                       if isRepeat question hist then
                         Inr (Continue obj \<lparr>role = System, content =
                           str ''You repeated: '' @ quoted question @
                           str ''. Ask a different, non-redundant question focusing on a new attribute. Absolutely avoid re-asking about the same topic.''\<rparr>)
                       else Inr (Break obj)))
      else if get obj0 (str ''type'') = Str (str ''guess'') \<or>
              get obj0 (str ''type'') = Str (str ''final'') then
        (case String rt (or_else (get obj0 (str ''guess'')) (Str [])) of
           Inl e \<Rightarrow> Inl e
         | Inr s \<Rightarrow>
             let obj1 = put obj0 (str ''guess'') (Str (slice s 0 120))
             in (case (if Number_isFinite (get obj1 (str ''confidence''))
                       then (case Number rt (get obj1 (str ''confidence'')) of
                               Inl e \<Rightarrow> Inl e
                             | Inr n \<Rightarrow> Inr (Math_max (Fin 0) (Math_min (Fin 1) n)))
                       else Inr (Fin 0)) of
                   Inl e \<Rightarrow> Inl e
                 | Inr c \<Rightarrow>
                     let obj = put obj1 (str ''confidence'') (Num c)
                     in if \<not> truthy (get obj (str ''guess'')) then Inl (Error (str ''Missing guess''))
                        else Inr (Break obj)))
      else Inl (Error (str ''Invalid type'')))"

text \<open>
  The \<open>while (attempts < 3)\<close> loop. \<open>callFireworks\<close> is the inference client, whose
  answer depends on the network: what it returns for the messages at a given attempt, an
  object or an exception, is a parameter, and the loop is embedded for all of them. The loop's
  variables are \<open>obj\<close> (\<open>Undefined\<close> before the first assignment), \<open>attempts\<close> and
  \<open>messages\<close>; the result holds how the loop ended (\<open>Inl\<close>: an exception left it;
  \<open>Inr\<close>: it was left normally, with this \<open>obj\<close>) and the last two as they were then.
\<close>

function retry_loop ::
  "runtime \<Rightarrow> (nat \<Rightarrow> message list \<Rightarrow> error + jsobject) \<Rightarrow> entry list \<Rightarrow>
   jsval \<times> nat \<times> message list \<Rightarrow> (error + jsval) \<times> nat \<times> message list" where
  "retry_loop rt callFireworks hist (obj, attempts, messages) =
     (if attempts < 3 then
        (case callFireworks (attempts + 1) messages of
           Inl e \<Rightarrow> (Inl e, attempts + 1, messages)
         | Inr obj1 \<Rightarrow>
             (case loop_body rt hist obj1 of
                Inl e \<Rightarrow> (Inl e, attempts + 1, messages)
              | Inr (Continue obj2 msg) \<Rightarrow>
                  retry_loop rt callFireworks hist (Obj obj2, attempts + 1, messages @ [msg])
              | Inr (Break obj2) \<Rightarrow> (Inr (Obj obj2), attempts + 1, messages)))
      else (Inr obj, attempts, messages))"
  by pat_completeness auto
termination
  by (relation "measure (\<lambda>(rt, c, h, obj, attempts, messages). 3 - attempts)") auto

text \<open>
  The body of a request: each field may be missing, and the destructuring gives it its
  default. A response: the status and what \<open>res.json\<close> sends, the object, or the error
  message under status 500.
\<close>

record request_body =
  body_domain :: "jsstring option"
  body_history :: "entry list option"
  body_turns :: "nat option"
  body_forceFinal :: "bool option"
  body_hint :: "jsstring option"

datatype response = Status200 jsval | Status500 jsstring

text \<open>
  \<open>app.post('/api/step', ...)\<close>. \<open>key\<close> is \<open>process.env.FIREWORKS_API_KEY\<close>. The \<open>catch\<close>
  answers every exception with status 500 and \<open>e.message || 'Server error'\<close>.
\<close>

definition step ::
  "runtime \<Rightarrow> jsstring option \<Rightarrow> (nat \<Rightarrow> message list \<Rightarrow> error + jsobject) \<Rightarrow>
   request_body \<Rightarrow> response" where
  "step rt key callFireworks body =
     (let dom = (case body_domain body of None \<Rightarrow> str ''character'' | Some d \<Rightarrow> d);
          hist = (case body_history body of None \<Rightarrow> [] | Some h \<Rightarrow> h);
          trn = (case body_turns body of None \<Rightarrow> length hist | Some t \<Rightarrow> t);
          ff = (case body_forceFinal body of None \<Rightarrow> False | Some f \<Rightarrow> f);
          hnt = (case body_hint body of None \<Rightarrow> [] | Some h \<Rightarrow> h)
      in if key = None \<or> key = Some [] then Status500 (str ''Server missing FIREWORKS_API_KEY'')
         else
           let messages = [
                 \<lparr>role = System, content = buildSystem dom\<rparr>,
                 \<lparr>role = User, content = buildUser rt
                    \<lparr>domain = dom, history = hist, turns = trn, forceFinal = ff, hint = hnt\<rparr>\<rparr>]
           in (case fst (retry_loop rt callFireworks hist (Undefined, 0, messages)) of
                 Inr obj \<Rightarrow> Status200 obj
               | Inl e \<Rightarrow> Status500 (if message e \<noteq> [] then message e else str ''Server error'')))"

section \<open>The specification's reading of the anti-repeat helpers\<close>

text \<open>
  Normalization in the specification's words: lowercase; replace every character outside
  \<open>[a-z0-9 ]\<close> with a space; collapse runs of whitespace; trim.
\<close>

definition normalize_spec :: "jsstring \<Rightarrow> jsstring" where
  "normalize_spec s =
     trim (replace_all re_spaces
       (map (\<lambda>c. if is_lower_alnum c \<or> c = 32 then c else 32) (toLowerCase s)))"

text \<open>
  Tokens in the specification's words: split the normalized string on whitespace and drop
  the stop words; a token set is the set of the tokens.
\<close>

fun split_where :: "(nat \<Rightarrow> bool) \<Rightarrow> jsstring \<Rightarrow> jsstring list" where
  "split_where P [] = [[]]"
| "split_where P (c # cs) =
     (if P c then [] # split_where P cs
      else (case split_where P cs of [] \<Rightarrow> [[c]] | w # ws \<Rightarrow> (c # w) # ws))"

definition token_set :: "jsstring \<Rightarrow> jsstring set" where
  "token_set s =
     {w \<in> set (split_where is_space (normalize_spec s)). w \<noteq> [] \<and> w \<notin> set STOP}"

text \<open>
  Similarity in the specification's words: the size of the intersection over the size of
  the union of the two token sets, and 0 when the union is empty.
\<close>

definition similarity :: "jsstring set \<Rightarrow> jsstring set \<Rightarrow> rat" where
  "similarity A B =
     (if A \<union> B = {} then 0 else of_nat (card (A \<inter> B)) / of_nat (card (A \<union> B)))"

text \<open>\<open>p\<close> is a substring of \<open>s\<close>.\<close>

definition substring_of :: "jsstring \<Rightarrow> jsstring \<Rightarrow> bool" where
  "substring_of p s \<longleftrightarrow> (\<exists>u v. s = u @ p @ v)"

text \<open>
  The duplicate test of the specification on one earlier question: similarity at least
  0.70, or containment of the normalized strings in either direction.
\<close>

definition duplicates :: "jsstring \<Rightarrow> jsstring \<Rightarrow> bool" where
  "duplicates candidate prior \<longleftrightarrow>
     similarity (token_set candidate) (token_set prior) \<ge> 7 / 10 \<or>
     substring_of (normalize_spec candidate) (normalize_spec prior) \<or>
     substring_of (normalize_spec prior) (normalize_spec candidate)"

section \<open>The specification's reading of the prompt builder\<close>

text \<open>
  The history line of the claim: \<open>Q{i}: <question> -> <answer>\<close> with the entry's question
  and answer text, and the user prompt with these lines in the place of the source's.
\<close>

definition fact_line_spec :: "nat \<Rightarrow> entry \<Rightarrow> jsstring" where
  "fact_line_spec i x =
     str ''Q'' @ decimal (i + 1) @ str '': '' @ q x @ str '' '' @ [8594] @ str '' '' @ a x"

definition flag_line :: "bool \<Rightarrow> jsstring" where
  "flag_line f =
     (if f then str ''forceFinal=true '' @ [8594] @ str '' make your best final guess.''
      else str ''forceFinal=false '' @ [8594] @ str '' ask the next question logically.'')"

definition hint_line :: "jsstring \<Rightarrow> jsstring" where
  "hint_line h = (if h \<noteq> [] then str ''Player hint: '' @ h else str ''(no hint)'')"

definition user_prompt_around :: "prompt_context \<Rightarrow> jsstring \<Rightarrow> jsstring" where
  "user_prompt_around ctx facts =
     str ''We are playing 20 Questions. Domain: '' @ domain ctx @ str ''.'' @ [10] @
     str ''Here are all facts discovered so far:'' @ [10] @
     facts @ [10] @
     [10] @
     str ''Based on these facts, reason logically to choose the next most informative question.'' @ [10] @
     str ''Your question should reduce uncertainty the most and move closer to a confident guess.'' @ [10] @
     str ''Focus on attributes not yet covered (e.g. nationality, occupation, historical era, public role, media type, field of work, notable achievements).'' @ [10] @
     flag_line (forceFinal ctx) @ [10] @
     hint_line (hint ctx) @ [10] @
     str ''Return ONLY strict JSON.''"

definition buildUserPrompt_spec :: "prompt_context \<Rightarrow> jsstring" where
  "buildUserPrompt_spec ctx =
     user_prompt_around ctx
       (if history ctx = [] then str ''(no previous questions)''
        else join [10] (map (\<lambda>i. fact_line_spec i (history ctx ! i)) [0..<length (history ctx)]))"

section \<open>The specification's reading of the orchestrator\<close>

text \<open>
  The kinds of action, by \<open>obj.type\<close>. The text of the question and of the guess:
  \<open>String(obj.question || '')\<close> and \<open>String(obj.guess || '')\<close>, a string or the exception
  of the conversion. The question truncated to 200 code units and the guess truncated to
  120; where the conversion throws there is nothing to truncate, and both are written as
  the empty string, so that a truncated text that is not empty is the text of a
  conversion that returned. The corrective system message that names a question.
\<close>

definition is_ask :: "jsobject \<Rightarrow> bool" where
  "is_ask obj \<longleftrightarrow> get obj (str ''type'') = Str (str ''ask'')"

definition is_guess_or_final :: "jsobject \<Rightarrow> bool" where
  "is_guess_or_final obj \<longleftrightarrow>
     get obj (str ''type'') = Str (str ''guess'') \<or> get obj (str ''type'') = Str (str ''final'')"

definition question_text :: "runtime \<Rightarrow> jsobject \<Rightarrow> error + jsstring" where
  "question_text rt obj = String rt (or_else (get obj (str ''question'')) (Str []))"

definition guess_text :: "runtime \<Rightarrow> jsobject \<Rightarrow> error + jsstring" where
  "guess_text rt obj = String rt (or_else (get obj (str ''guess'')) (Str []))"

definition truncated_question :: "runtime \<Rightarrow> jsobject \<Rightarrow> jsstring" where
  "truncated_question rt obj =
     (case question_text rt obj of Inl e \<Rightarrow> [] | Inr s \<Rightarrow> take 200 s)"

definition truncated_guess :: "runtime \<Rightarrow> jsobject \<Rightarrow> jsstring" where
  "truncated_guess rt obj = (case guess_text rt obj of Inl e \<Rightarrow> [] | Inr s \<Rightarrow> take 120 s)"

definition corrective :: "jsstring \<Rightarrow> message" where
  "corrective question =
     \<lparr>role = System, content =
        str ''You repeated: '' @ quoted question @
        str ''. Ask a different, non-redundant question focusing on a new attribute. Absolutely avoid re-asking about the same topic.''\<rparr>"

text \<open>
  Confidence in the specification's words: a finite number is clamped into \<open>[0, 1]\<close>, and
  anything else (not finite, not a number, missing) is 0.
\<close>

definition clamped :: "jsval \<Rightarrow> rat" where
  "clamped v = (case v of Num (Fin x) \<Rightarrow> max 0 (min 1 x) | _ \<Rightarrow> 0)"

text \<open>
  The action as it is returned: an ask with its question truncated, a guess or a final
  with its guess truncated and its confidence clamped; every other property is as the
  model gave it.
\<close>

definition validated :: "runtime \<Rightarrow> jsobject \<Rightarrow> jsobject" where
  "validated rt obj =
     (if is_ask obj then put obj (str ''question'') (Str (truncated_question rt obj))
      else put (put obj (str ''guess'') (Str (truncated_guess rt obj)))
             (str ''confidence'') (Num (Fin (clamped (get obj (str ''confidence''))))))"

text \<open>The object of a pass through the loop's body that did not throw.\<close>

fun result_object :: "body_result \<Rightarrow> jsobject" where
  "result_object (Continue obj msg) = obj"
| "result_object (Break obj) = obj"

text \<open>
  An attempt that is a duplicate ask (it is corrected and retried), and an attempt that
  is accepted (it ends the loop).
\<close>

definition duplicate_ask :: "runtime \<Rightarrow> entry list \<Rightarrow> jsobject \<Rightarrow> bool" where
  "duplicate_ask rt hist obj \<longleftrightarrow>
     is_ask obj \<and> truncated_question rt obj \<noteq> [] \<and> isRepeat (truncated_question rt obj) hist"

definition accepted :: "runtime \<Rightarrow> entry list \<Rightarrow> jsobject \<Rightarrow> bool" where
  "accepted rt hist obj \<longleftrightarrow>
     (is_ask obj \<and> truncated_question rt obj \<noteq> [] \<and>
        \<not> isRepeat (truncated_question rt obj) hist) \<or>
     (is_guess_or_final obj \<and> truncated_guess rt obj \<noteq> [])"

text \<open>The messages after the correctives for a list of duplicate asks.\<close>

definition corrected_messages :: "runtime \<Rightarrow> message list \<Rightarrow> jsobject list \<Rightarrow> message list" where
  "corrected_messages rt msgs objs =
     msgs @ map (\<lambda>obj. corrective (truncated_question rt obj)) objs"

text \<open>
  The history of a request and the two messages its loop starts with, after the defaults
  of the destructuring.
\<close>

definition request_history :: "request_body \<Rightarrow> entry list" where
  "request_history body = (case body_history body of None \<Rightarrow> [] | Some h \<Rightarrow> h)"

definition initial_messages :: "runtime \<Rightarrow> request_body \<Rightarrow> message list" where
  "initial_messages rt body =
     (let dom = (case body_domain body of None \<Rightarrow> str ''character'' | Some d \<Rightarrow> d);
          hist = request_history body;
          trn = (case body_turns body of None \<Rightarrow> length hist | Some t \<Rightarrow> t);
          ff = (case body_forceFinal body of None \<Rightarrow> False | Some f \<Rightarrow> f);
          hnt = (case body_hint body of None \<Rightarrow> [] | Some h \<Rightarrow> h)
      in [\<lparr>role = System, content = buildSystem dom\<rparr>,
          \<lparr>role = User, content = buildUser rt
             \<lparr>domain = dom, history = hist, turns = trn, forceFinal = ff, hint = hnt\<rparr>\<rparr>])"

text \<open>
  An inference client that answers its n-th call with the n-th object of a list, whatever
  the messages are, and fails as on an upstream error behind the end of the list: the
  mocked responses of the specification's scenarios.
\<close>

definition scripted :: "jsobject list \<Rightarrow> nat \<Rightarrow> message list \<Rightarrow> error + jsobject" where
  "scripted xs n ms =
     (if 1 \<le> n \<and> n \<le> length xs then Inr (xs ! (n - 1))
      else Inl (Error (str ''Fireworks error'')))"

text \<open>
  The three shapes of a returned action, on its properties \<open>type\<close>, \<open>question\<close>, \<open>guess\<close>
  and \<open>confidence\<close>.
\<close>

definition ask_shape :: "jsobject \<Rightarrow> bool" where
  "ask_shape obj \<longleftrightarrow>
     get obj (str ''type'') = Str (str ''ask'') \<and>
     (\<exists>s. get obj (str ''question'') = Str s \<and> s \<noteq> [] \<and> length s \<le> 200)"

definition guess_shape :: "jsobject \<Rightarrow> bool" where
  "guess_shape obj \<longleftrightarrow>
     (get obj (str ''type'') = Str (str ''guess'') \<or> get obj (str ''type'') = Str (str ''final'')) \<and>
     (\<exists>g. get obj (str ''guess'') = Str g \<and> g \<noteq> [] \<and> length g \<le> 120) \<and>
     (\<exists>c. get obj (str ''confidence'') = Num (Fin c) \<and> 0 \<le> c \<and> c \<le> 1)"

text \<open>
  A runtime for the worked examples. Its \<open>JSON.parse\<close> knows four texts and throws on
  every other one; its number conversions read and print \<open>0.8\<close> only; its \<open>toLowerCase\<close>
  knows, beside what \<open>toLowerCase\<close> above does, the capital letters of Latin-1
  (U+00C0 to U+00DE without the multiplication sign U+00D7, each 32 below its small
  letter), which makes it the built-in on the examples' texts.
\<close>

definition lower_latin1 :: "jsstring \<Rightarrow> jsstring" where
  "lower_latin1 s =
     concat (map (\<lambda>c. if 192 \<le> c \<and> c \<le> 222 \<and> c \<noteq> 215 then [c + 32] else lower_unit c) s)"

definition example_runtime :: runtime where
  "example_runtime = \<lparr>
     JSON_parse = (\<lambda>s.
       if s = str ''{'' @ quoted (str ''type'') @ str '':'' @ quoted (str ''ask'') @ str '','' @
              quoted (str ''question'') @ str '':'' @ quoted (str ''Is it real?'') @ str ''}''
          \<or> s = str ''{'' @ quoted (str ''type'') @ str '':'' @ quoted (str ''ask'') @ str '','' @
              quoted (str ''question'') @ str '': '' @ quoted (str ''Is it real?'') @ str ''}''
       then Inr (Obj [(str ''type'', Str (str ''ask'')), (str ''question'', Str (str ''Is it real?''))])
       else if s = str ''{'' @ quoted (str ''type'') @ str '':'' @ quoted (str ''final'') @ str '','' @
              quoted (str ''guess'') @ str '':'' @ quoted (str ''Einstein'') @ str '','' @
              quoted (str ''confidence'') @ str '':0.9}''
       then Inr (Obj [(str ''type'', Str (str ''final'')), (str ''guess'', Str (str ''Einstein'')),
                      (str ''confidence'', Num (Fin (9 / 10)))])
       else if s = str ''{'' @ quoted (str ''type'') @ str '':'' @ quoted (str ''guess'') @ str '','' @
              quoted (str ''guess'') @ str '':'' @ quoted (str ''Napoleon'') @ str '', '' @
              quoted (str ''confidence'') @ str '': 0.8}''
       then Inr (Obj [(str ''type'', Str (str ''guess'')), (str ''guess'', Str (str ''Napoleon'')),
                      (str ''confidence'', Num (Fin (8 / 10)))])
       else Inl (Error (str ''Unexpected token''))),
     Number_toString = (\<lambda>r. if r = 8 / 10 then str ''0.8'' else []),
     StringToNumber = (\<lambda>s. if s = str ''0.8'' then Fin (8 / 10) else NaN),
     String_toLowerCase = lower_latin1\<rparr>"

section \<open>The specification's reading of the response interpreter\<close>

text \<open>
  Step 2, the chain-of-thought blocks. A word is spelled without regard to the case of
  its letters. A block is an opening marker \<open><think>\<close>, any text, and a closing marker
  \<open></think>\<close>. The block at the head of a text is its shortest prefix that is a block
  (non-greedy: it ends with the first closing marker behind the opening one). Stripping
  goes through the text from the left, removes the block at the head where there is one,
  and keeps the first code unit otherwise.
\<close>

definition lower_ascii :: "nat \<Rightarrow> nat" where
  "lower_ascii c = (if 65 \<le> c \<and> c \<le> 90 then c + 32 else c)"

definition spelled :: "jsstring \<Rightarrow> jsstring \<Rightarrow> bool" where
  "spelled s word \<longleftrightarrow> map lower_ascii s = word"

definition is_block :: "jsstring \<Rightarrow> bool" where
  "is_block b \<longleftrightarrow>
     15 \<le> length b \<and> spelled (take 7 b) (str ''<think>'') \<and>
     spelled (drop (length b - 8) b) (str ''</think>'')"

definition head_block :: "jsstring \<Rightarrow> nat option" where
  "head_block s = find (\<lambda>n. is_block (take n s)) [0..<length s + 1]"

function strip_blocks :: "jsstring \<Rightarrow> jsstring" where
  "strip_blocks [] = []"
| "strip_blocks (c # cs) =
     (case head_block (c # cs) of
        None \<Rightarrow> c # strip_blocks cs
      | Some n \<Rightarrow> strip_blocks (drop n (c # cs)))"
  by pat_completeness auto
termination
proof (relation "measure length")
  fix c :: nat and cs :: jsstring and n :: nat
  assume "head_block (c # cs) = Some n"
  then have "is_block (take n (c # cs))"
    by (auto simp: head_block_def find_Some_iff)
  then have "0 < n"
    by (cases n) (simp_all add: is_block_def)
  then show "(drop n (c # cs), c # cs) \<in> measure length"
    by simp
qed simp_all

text \<open>
  Step 2, the code-fence markers: three backquotes (96), alone or with the language tag
  \<open>json\<close> behind them. Where the text goes on with a marker, the marker is removed, with
  its tag when the tag is there.
\<close>

definition fence_marker :: "jsstring \<Rightarrow> bool" where
  "fence_marker m \<longleftrightarrow>
     m = [96, 96, 96] \<or> (take 3 m = [96, 96, 96] \<and> spelled (drop 3 m) (str ''json''))"

definition head_fence :: "jsstring \<Rightarrow> nat option" where
  "head_fence s = find (\<lambda>n. n \<le> length s \<and> fence_marker (take n s)) [7, 3]"

function strip_fences :: "jsstring \<Rightarrow> jsstring" where
  "strip_fences [] = []"
| "strip_fences (c # cs) =
     (case head_fence (c # cs) of
        None \<Rightarrow> c # strip_fences cs
      | Some n \<Rightarrow> strip_fences (drop n (c # cs)))"
  by pat_completeness auto
termination
proof (relation "measure length")
  fix c :: nat and cs :: jsstring and n :: nat
  assume "head_fence (c # cs) = Some n"
  then have "n = 7 \<or> n = 3"
    by (auto simp: head_fence_def split: if_splits)
  then show "(drop n (c # cs), c # cs) \<in> measure length"
    by auto
qed simp_all

definition strip_noise :: "jsstring \<Rightarrow> jsstring" where
  "strip_noise t = strip_fences (strip_blocks t)"

text \<open>
  Steps 4 and 5: the text from the first opening brace (123) to the last closing brace
  (125), when both are there, and the strict parse, which gives a value or fails.
\<close>

definition brace_span :: "jsstring \<Rightarrow> jsstring option" where
  "brace_span t =
     (if 123 \<in> set t \<and> 125 \<in> set t
      then Some (rev (dropWhile (\<lambda>c. c \<noteq> 125) (rev (dropWhile (\<lambda>c. c \<noteq> 123) t))))
      else None)"

definition strict_parse :: "runtime \<Rightarrow> jsstring \<Rightarrow> jsval option" where
  "strict_parse rt s = (case JSON_parse rt s of Inl e \<Rightarrow> None | Inr v \<Rightarrow> Some v)"

text \<open>
  Step 6, the repair pass, in three passes over the text. A trailing comma is a comma
  (44) with nothing but white space between it and a closing brace (125) or bracket
  (93); it is removed together with that white space. A single-quoted string value is a
  colon (58), white space, and a text without a single quote (39) between two of them;
  it is written as the colon, one space, and the text between double quotes (34). A
  curly double quote (U+201C, U+201D) becomes a straight one.
\<close>

definition trailing_comma :: "jsstring \<Rightarrow> bool" where
  "trailing_comma s \<longleftrightarrow>
     s \<noteq> [] \<and> hd s = 44 \<and>
     (let r = dropWhile is_space (tl s) in r \<noteq> [] \<and> (hd r = 125 \<or> hd r = 93))"

function remove_trailing_commas :: "jsstring \<Rightarrow> jsstring" where
  "remove_trailing_commas [] = []"
| "remove_trailing_commas (c # cs) =
     (if trailing_comma (c # cs) then remove_trailing_commas (dropWhile is_space cs)
      else c # remove_trailing_commas cs)"
  by pat_completeness auto
termination
  by (relation "measure length") (simp_all add: length_dropWhile_le less_Suc_eq_le)

text \<open>
  The text of the single-quoted value at the head of a string, with what follows its
  closing quote.
\<close>

definition single_quoted_value :: "jsstring \<Rightarrow> (jsstring \<times> jsstring) option" where
  "single_quoted_value s =
     (if s \<noteq> [] \<and> hd s = 58 then
        (let r = dropWhile is_space (tl s) in
         if r \<noteq> [] \<and> hd r = 39 \<and> 39 \<in> set (tl r)
         then Some (takeWhile (\<lambda>x. x \<noteq> 39) (tl r), tl (dropWhile (\<lambda>x. x \<noteq> 39) (tl r)))
         else None)
      else None)"

function double_quote_values :: "jsstring \<Rightarrow> jsstring" where
  "double_quote_values [] = []"
| "double_quote_values (c # cs) =
     (case single_quoted_value (c # cs) of
        None \<Rightarrow> c # double_quote_values cs
      | Some (v, rest) \<Rightarrow> [58, 32, 34] @ v @ [34] @ double_quote_values rest)"
  by pat_completeness auto
termination
proof (relation "measure length")
  fix c :: nat and cs v rest :: jsstring and x :: "jsstring \<times> jsstring"
  assume "single_quoted_value (c # cs) = Some x" and "(v, rest) = x"
  then have "rest = tl (dropWhile (\<lambda>x. x \<noteq> 39) (tl (dropWhile is_space cs)))"
    by (auto simp: single_quoted_value_def Let_def split: if_splits)
  moreover have "length (tl (dropWhile (\<lambda>x. x \<noteq> 39) (tl (dropWhile is_space cs)))) \<le> length cs"
    by (metis diff_le_self le_trans length_dropWhile_le length_tl)
  ultimately show "(rest, c # cs) \<in> measure length"
    by simp
qed simp_all

definition straighten_quotes :: "jsstring \<Rightarrow> jsstring" where
  "straighten_quotes s = map (\<lambda>c. if c = 8220 \<or> c = 8221 then 34 else c) s"

definition repair :: "jsstring \<Rightarrow> jsstring" where
  "repair s = straighten_quotes (double_quote_values (remove_trailing_commas s))"

text \<open>The reference definition of \<open>extractJson\<close>, step by step.\<close>

definition extractJson_spec :: "runtime \<Rightarrow> jsstring option \<Rightarrow> jsval" where
  "extractJson_spec rt text0 =
     (case text0 of
        None \<Rightarrow> Null
      | Some t0 \<Rightarrow>
          if t0 = [] then Null
          else
            (case brace_span (trim (strip_noise t0)) of
               None \<Rightarrow> Null
             | Some candidate \<Rightarrow>
                 (case strict_parse rt candidate of
                    Some v \<Rightarrow> v
                  | None \<Rightarrow>
                      (case strict_parse rt (repair candidate) of
                         Some v \<Rightarrow> v
                       | None \<Rightarrow> Null))))"

text \<open>No three backquotes in a row anywhere in the string.\<close>

definition fence_free :: "jsstring \<Rightarrow> bool" where
  "fence_free s \<longleftrightarrow> (\<forall>i. \<not> startsWith (drop i s) [96, 96, 96])"

section \<open>Predicates of the proofs\<close>

text \<open>No two white-space code units stand side by side.\<close>

fun single_spaced :: "jsstring \<Rightarrow> bool" where
  "single_spaced [] = True"
| "single_spaced [c] = True"
| "single_spaced (c # d # r) = (\<not> (is_space c \<and> is_space d) \<and> single_spaced (d # r))"

text \<open>
  The shape of a normalized string: only \<open>[a-z0-9]\<close> and the space, no two spaces side by
  side, no space at either end.
\<close>

definition normalized :: "jsstring \<Rightarrow> bool" where
  "normalized s \<longleftrightarrow>
     (\<forall>c \<in> set s. is_lower_alnum c \<or> c = 32) \<and> single_spaced s \<and>
     (s \<noteq> [] \<longrightarrow> hd s \<noteq> 32 \<and> last s \<noteq> 32)"

section \<open>Normalization\<close>

declare replace_all.simps(2) [simp del]

lemma is_space_32 [simp]: "is_space 32"
  by (simp add: is_space_def)

lemma lower_alnum_not_space: "is_lower_alnum c \<Longrightarrow> \<not> is_space c"
  by (auto simp: is_lower_alnum_def is_space_def)

lemma replace_not_alnum_space_map:
  "replace_all re_not_alnum_space s = map (\<lambda>c. if is_lower_alnum c \<or> is_space c then c else 32) s"
  by (induction s) (simp_all add: re_not_alnum_space_def replace_all.simps)

lemma replace_spaces_Cons:
  "replace_all re_spaces (c # cs) =
     (if is_space c then 32 # replace_all re_spaces (dropWhile is_space cs)
      else c # replace_all re_spaces cs)"
  by (simp add: re_spaces_def dropWhile_eq_drop replace_all.simps)

lemma replace_spaces_set:
  "x \<in> set (replace_all re_spaces s) \<Longrightarrow> x = 32 \<or> (x \<in> set s \<and> \<not> is_space x)"
proof (induction "length s" arbitrary: s rule: less_induct)
  case less
  show ?case
  proof (cases s)
    case Nil
    with less.prems show ?thesis by simp
  next
    case (Cons c cs)
    have len: "length (dropWhile is_space cs) < length s"
      using Cons by (simp add: le_imp_less_Suc length_dropWhile_le)
    show ?thesis
    proof (cases "is_space c")
      case True
      with less.prems Cons have "x = 32 \<or> x \<in> set (replace_all re_spaces (dropWhile is_space cs))"
        by (simp add: replace_spaces_Cons)
      then show ?thesis
        using less.hyps [OF len] Cons by (auto dest: set_dropWhileD)
    next
      case False
      with less.prems Cons have "x = c \<or> x \<in> set (replace_all re_spaces cs)"
        by (simp add: replace_spaces_Cons)
      then show ?thesis
        using less.hyps [of cs] Cons False by auto
    qed
  qed
qed

lemma replace_spaces_hd:
  "s \<noteq> [] \<Longrightarrow> \<not> is_space (hd s) \<Longrightarrow>
     replace_all re_spaces s \<noteq> [] \<and> hd (replace_all re_spaces s) = hd s"
  by (cases s) (simp_all add: replace_spaces_Cons)

lemma dropWhile_hd: "dropWhile P xs \<noteq> [] \<Longrightarrow> \<not> P (hd (dropWhile P xs))"
  by (simp add: hd_dropWhile)

lemma single_spaced_Cons:
  "single_spaced (c # r) \<longleftrightarrow> (r = [] \<or> \<not> (is_space c \<and> is_space (hd r))) \<and> single_spaced r"
  by (cases r) auto

lemma replace_spaces_single: "single_spaced (replace_all re_spaces s)"
proof (induction "length s" arbitrary: s rule: less_induct)
  case less
  show ?case
  proof (cases s)
    case Nil
    then show ?thesis by simp
  next
    case (Cons c cs)
    have len: "length (dropWhile is_space cs) < length s"
      using Cons by (simp add: le_imp_less_Suc length_dropWhile_le)
    show ?thesis
    proof (cases "is_space c")
      case True
      let ?d = "dropWhile is_space cs"
      have "single_spaced (replace_all re_spaces ?d)"
        using less.hyps [OF len] .
      moreover have "replace_all re_spaces ?d = [] \<or> \<not> is_space (hd (replace_all re_spaces ?d))"
      proof (cases "?d = []")
        case True
        then have "replace_all re_spaces ?d = []"
          by (simp only: replace_all.simps)
        then show ?thesis ..
      next
        case False
        then have "\<not> is_space (hd ?d)" by (rule dropWhile_hd)
        with False show ?thesis using replace_spaces_hd [of ?d] by simp
      qed
      ultimately show ?thesis
        using Cons True by (auto simp: replace_spaces_Cons single_spaced_Cons)
    next
      case False
      have "single_spaced (replace_all re_spaces cs)"
        using less.hyps [of cs] Cons by simp
      then show ?thesis
        using Cons False by (simp add: replace_spaces_Cons single_spaced_Cons)
    qed
  qed
qed

lemma replace_spaces_id:
  "single_spaced s \<Longrightarrow> \<forall>c \<in> set s. is_space c \<longrightarrow> c = 32 \<Longrightarrow> replace_all re_spaces s = s"
proof (induction s)
  case Nil
  then show ?case by simp
next
  case (Cons c cs)
  then have ih: "replace_all re_spaces cs = cs"
    by (simp add: single_spaced_Cons)
  show ?case
  proof (cases "is_space c")
    case True
    with Cons.prems have "c = 32" and "cs = [] \<or> \<not> is_space (hd cs)"
      by (auto simp: single_spaced_Cons)
    then have "dropWhile is_space cs = cs"
      by (cases cs) auto
    with True ih \<open>c = 32\<close> show ?thesis
      by (simp add: replace_spaces_Cons)
  next
    case False
    with ih show ?thesis by (simp add: replace_spaces_Cons)
  qed
qed


lemma single_spaced_dropWhile: "single_spaced s \<Longrightarrow> single_spaced (dropWhile P s)"
  by (induction s rule: single_spaced.induct) auto

lemma single_spaced_rev: "single_spaced (rev s) = single_spaced s"
proof -
  have app: "single_spaced (xs @ [a, b]) \<longleftrightarrow> single_spaced (xs @ [a]) \<and> \<not> (is_space a \<and> is_space b)"
    for xs a b
    by (induction xs rule: single_spaced.induct) auto
  have "single_spaced (rev s) \<longleftrightarrow> single_spaced s"
  proof (induction s rule: single_spaced.induct)
    case (3 c d r)
    have "single_spaced (rev (c # d # r)) \<longleftrightarrow> single_spaced (rev r @ [d, c])"
      by simp
    also have "\<dots> \<longleftrightarrow> single_spaced (rev (d # r)) \<and> \<not> (is_space d \<and> is_space c)"
      using app [of "rev r" d c] by simp
    finally show ?case using 3 by auto
  qed simp_all
  then show ?thesis .
qed

lemma single_spaced_trim: "single_spaced s \<Longrightarrow> single_spaced (trim s)"
  by (simp add: trim_def single_spaced_rev single_spaced_dropWhile)

lemma set_trim: "set (trim s) \<subseteq> set s"
  by (auto simp: trim_def dest!: set_dropWhileD)

lemma trim_ends:
  "trim s \<noteq> [] \<Longrightarrow> \<not> is_space (hd (trim s)) \<and> \<not> is_space (last (trim s))"
proof -
  assume ne: "trim s \<noteq> []"
  let ?d = "dropWhile is_space s" and ?e = "dropWhile is_space (rev (dropWhile is_space s))"
  from ne have e: "?e \<noteq> []" by (simp add: trim_def)
  then have "\<not> is_space (hd ?e)" by (rule dropWhile_hd)
  then have l: "\<not> is_space (last (trim s))"
    using e by (simp add: trim_def last_rev)
  from e have d: "?d \<noteq> []"
    by (metis dropWhile.simps(1) rev.simps(1))
  then have hd: "\<not> is_space (hd ?d)" by (rule dropWhile_hd)
  have "rev ?d = takeWhile is_space (rev ?d) @ ?e" by simp
  then have "?d = rev ?e @ rev (takeWhile is_space (rev ?d))"
    by (metis rev_append rev_rev_ident)
  then have "hd ?d = hd (rev ?e)"
    using e by (metis hd_append2 rev_is_Nil_conv)
  with hd have "\<not> is_space (hd (trim s))" by (simp add: trim_def)
  with l show ?thesis by simp
qed

lemma dropWhile_id_hd: "xs = [] \<or> \<not> P (hd xs) \<Longrightarrow> dropWhile P xs = xs"
  by (cases xs) auto

lemma trim_id: "s = [] \<or> (\<not> is_space (hd s) \<and> \<not> is_space (last s)) \<Longrightarrow> trim s = s"
proof (cases s)
  case Nil
  then show ?thesis by (simp add: trim_def)
next
  case (Cons c cs)
  assume "s = [] \<or> (\<not> is_space (hd s) \<and> \<not> is_space (last s))"
  with Cons have h: "\<not> is_space (hd s)" and l: "\<not> is_space (last s)" by auto
  from h have "dropWhile is_space s = s"
    by (simp add: dropWhile_id_hd)
  moreover from l have "dropWhile is_space (rev s) = rev s"
    by (simp add: dropWhile_id_hd hd_rev)
  ultimately show ?thesis by (simp add: trim_def)
qed

lemma toLowerCase_id: "\<forall>c \<in> set s. is_lower_alnum c \<or> c = 32 \<Longrightarrow> toLowerCase s = s"
  by (induction s) (auto simp: toLowerCase_def lower_unit_def is_lower_alnum_def)

lemma normalized_norm: "normalized (norm_str s)"
proof -
  let ?b = "replace_all re_not_alnum_space (toLowerCase s)"
  let ?c = "replace_all re_spaces ?b"
  have b: "\<forall>x \<in> set ?b. is_lower_alnum x \<or> is_space x"
    by (auto simp: replace_not_alnum_space_map)
  have c: "\<forall>x \<in> set ?c. is_lower_alnum x \<or> x = 32"
    using b by (auto dest!: replace_spaces_set)
  have 1: "\<forall>x \<in> set (norm_str s). is_lower_alnum x \<or> x = 32"
    using c set_trim [of ?c] by (auto simp: norm_str_def)
  have 2: "single_spaced (norm_str s)"
    by (simp add: norm_str_def single_spaced_trim replace_spaces_single)
  have 3: "norm_str s \<noteq> [] \<longrightarrow> hd (norm_str s) \<noteq> 32 \<and> last (norm_str s) \<noteq> 32"
    using trim_ends [of ?c] by (auto simp: norm_str_def)
  from 1 2 3 show ?thesis by (simp add: normalized_def)
qed

lemma norm_normalized: "normalized s \<Longrightarrow> norm_str s = s"
proof -
  assume n: "normalized s"
  then have chars: "\<forall>c \<in> set s. is_lower_alnum c \<or> c = 32"
    by (simp add: normalized_def)
  then have 1: "toLowerCase s = s" by (rule toLowerCase_id)
  have 2: "replace_all re_not_alnum_space s = s"
    using chars by (auto simp: replace_not_alnum_space_map intro!: map_idI)
  have 3: "replace_all re_spaces s = s"
    using n chars by (intro replace_spaces_id) (auto simp: normalized_def dest: lower_alnum_not_space)
  have ends: "s = [] \<or> (\<not> is_space (hd s) \<and> \<not> is_space (last s))"
  proof (cases "s = []")
    case False
    with n have "hd s \<noteq> 32" "last s \<noteq> 32" "hd s \<in> set s" "last s \<in> set s"
      by (simp_all add: normalized_def)
    with chars show ?thesis by (auto dest: lower_alnum_not_space)
  qed simp
  then have 4: "trim s = s" by (rule trim_id)
  from 1 2 3 4 show ?thesis by (simp add: norm_str_def)
qed

lemma replace_spaces_map_cong:
  assumes "\<And>c. is_space (f c) \<longleftrightarrow> is_space (g c)"
    and "\<And>c. \<not> is_space (f c) \<Longrightarrow> f c = g c"
  shows "replace_all re_spaces (map f s) = replace_all re_spaces (map g s)"
proof (induction "length s" arbitrary: s rule: less_induct)
  case less
  show ?case
  proof (cases s)
    case Nil
    then show ?thesis by simp
  next
    case (Cons c cs)
    have dw: "dropWhile is_space (map f cs) = map f (dropWhile (is_space \<circ> g) cs)"
      "dropWhile is_space (map g cs) = map g (dropWhile (is_space \<circ> g) cs)"
      using assms(1) by (simp_all add: dropWhile_map comp_def)
    have "length (dropWhile (is_space \<circ> g) cs) < length s"
      using Cons by (simp add: le_imp_less_Suc length_dropWhile_le)
    then have ih1: "replace_all re_spaces (map f (dropWhile (is_space \<circ> g) cs)) =
        replace_all re_spaces (map g (dropWhile (is_space \<circ> g) cs))"
      by (rule less.hyps)
    have ih2: "replace_all re_spaces (map f cs) = replace_all re_spaces (map g cs)"
      using less.hyps [of cs] Cons by simp
    show ?thesis
      using Cons assms [of c] ih1 ih2 by (auto simp: replace_spaces_Cons dw)
  qed
qed

lemma norm_eq_normalize_spec: "norm_str s = normalize_spec s"
proof -
  have "replace_all re_spaces (replace_all re_not_alnum_space t) =
      replace_all re_spaces (map (\<lambda>c. if is_lower_alnum c \<or> c = 32 then c else 32) t)" for t
    unfolding replace_not_alnum_space_map
    by (rule replace_spaces_map_cong) (auto dest: lower_alnum_not_space)
  then show ?thesis by (simp add: norm_str_def normalize_spec_def)
qed

text \<open>
  C9. Normalization is idempotent: normalizing a normalized string changes nothing, for
  every string. The function of the source is the normalization the specification
  describes (lowercase, every character outside \<open>[a-z0-9 ]\<close> to a space, white-space runs
  collapsed, trimmed).
\<close>

theorem norm_idempotent:
  "norm_str (norm_str s) = norm_str s \<and> norm_str s = normalize_spec s"
proof
  show "norm_str (norm_str s) = norm_str s"
    by (rule norm_normalized) (rule normalized_norm)
  show "norm_str s = normalize_spec s"
    by (rule norm_eq_normalize_spec)
qed

lemmas norm_eval =
  norm_str_def str_def trim_def toLowerCase_def lower_unit_def re_spaces_def
  re_not_alnum_space_def is_space_def is_lower_alnum_def replace_all.simps

theorem norm_idempotent_witness:
  "norm_str (str ''  Is it a MAN?? '') = str ''is it a man'' \<and>
   norm_str (norm_str (str ''  Is it a MAN?? '')) = str ''is it a man'' \<and>
   normalize_spec (str ''  Is it a MAN?? '') = str ''is it a man''"
proof -
  have e: "norm_str (str ''  Is it a MAN?? '') = str ''is it a man''"
    by (simp add: norm_eval)
  note t = norm_idempotent [of "str ''  Is it a MAN?? ''"]
  from t have i: "norm_str (norm_str (str ''  Is it a MAN?? '')) = norm_str (str ''  Is it a MAN?? '')" ..
  from t have r: "normalize_spec (str ''  Is it a MAN?? '') = norm_str (str ''  Is it a MAN?? '')"
    by simp
  from e i r show ?thesis by simp
qed

section \<open>The duplicate detector\<close>

lemma jaccard_similarity: "jaccard xs ys = similarity (set xs) (set ys)"
proof -
  let ?A = "set xs" and ?B = "set ys"
  have i: "length (filter (\<lambda>x. x \<in> set (remdups ys)) (remdups xs)) = card (?A \<inter> ?B)"
    by (simp add: distinct_length_filter Int_commute Collect_mem_eq)
  have "card ?A + card ?B = card (?A \<union> ?B) + card (?A \<inter> ?B)"
    by (rule card_Un_Int) simp_all
  then have u: "length (remdups xs) + length (remdups ys) - card (?A \<inter> ?B) = card (?A \<union> ?B)"
    by (simp add: length_remdups_card_conv)
  have z: "card (?A \<union> ?B) = 0 \<longleftrightarrow> ?A \<union> ?B = {}"
    by simp
  show ?thesis
    unfolding jaccard_def Let_def i u similarity_def using z by auto
qed

lemma startsWith_iff: "startsWith s p \<longleftrightarrow> (\<exists>v. s = p @ v)"
proof
  assume "startsWith s p"
  then have "s = p @ drop (length p) s"
    by (metis append_take_drop_id startsWith_def)
  then show "\<exists>v. s = p @ v" ..
next
  assume "\<exists>v. s = p @ v"
  then show "startsWith s p" by (auto simp: startsWith_def)
qed

lemma includesStr_iff: "includesStr s p \<longleftrightarrow> substring_of p s"
proof (induction s)
  case Nil
  then show ?case by (auto simp: substring_of_def)
next
  case (Cons c cs)
  show ?case
  proof
    assume "includesStr (c # cs) p"
    then consider "startsWith (c # cs) p" | "includesStr cs p" by auto
    then show "substring_of p (c # cs)"
    proof cases
      case 1
      then obtain v where "c # cs = [] @ p @ v" by (auto simp: startsWith_iff)
      then show ?thesis unfolding substring_of_def by blast
    next
      case 2
      with Cons obtain u v where "cs = u @ p @ v" by (auto simp: substring_of_def)
      then have "c # cs = (c # u) @ p @ v" by simp
      then show ?thesis unfolding substring_of_def by blast
    qed
  next
    assume "substring_of p (c # cs)"
    then obtain u v where uv: "c # cs = u @ p @ v" by (auto simp: substring_of_def)
    show "includesStr (c # cs) p"
    proof (cases u)
      case Nil
      with uv have "startsWith (c # cs) p" by (auto simp: startsWith_iff)
      then show ?thesis by simp
    next
      case (Cons d u')
      with uv have "cs = u' @ p @ v" by simp
      then have "substring_of p cs" unfolding substring_of_def by blast
      with Cons.IH show ?thesis by simp
    qed
  qed
qed

lemma split_where_eq_split_on:
  "\<forall>c \<in> set s. P c \<longleftrightarrow> c = d \<Longrightarrow> split_where P s = split_on d s"
  by (induction s) auto

lemma norm_spaces: "c \<in> set (norm_str s) \<Longrightarrow> is_space c \<longleftrightarrow> c = 32"
  using normalized_norm [of s] by (auto simp: normalized_def dest: lower_alnum_not_space)

lemma set_tokens: "set (tokens s) = token_set s"
proof -
  have "split_where is_space (norm_str s) = split_on 32 (norm_str s)"
    by (rule split_where_eq_split_on) (simp add: norm_spaces)
  then show ?thesis
    by (auto simp: tokens_def token_set_def norm_eq_normalize_spec [symmetric])
qed

lemma isRepeat_Cons:
  "isRepeat question (h # hist) \<longleftrightarrow> duplicates question (q h) \<or> isRepeat question hist"
  by (auto simp: Let_def duplicates_def jaccard_similarity set_tokens includesStr_iff
      norm_eq_normalize_spec)

text \<open>
  C2. \<open>isRepeat\<close> is a function of the candidate and the history alone, and it is true
  exactly when some entry of the history duplicates the candidate: the Jaccard similarity
  of the two token sets (normalize, split on whitespace, drop the stop words; 0 when the
  union is empty) is at least 0.70, or one normalized string is a substring of the other.
  The scan stops at the first such entry: what stands behind it does not matter, and a
  history without one is scanned to its end and gives false.
\<close>

theorem isRepeat_iff:
  "(isRepeat question hist \<longleftrightarrow> (\<exists>h \<in> set hist. duplicates question (q h))) \<and>
   (duplicates question (q h) \<longrightarrow> isRepeat question (pre @ h # post)) \<and>
   (isRepeat question [] = False)"
proof -
  have main: "isRepeat question hs \<longleftrightarrow> (\<exists>h \<in> set hs. duplicates question (q h))" for hs
  proof (induction hs)
    case Nil
    show ?case by simp
  next
    case (Cons h hs)
    then show ?case by (simp only: isRepeat_Cons) auto
  qed
  have "duplicates question (q h) \<longrightarrow> isRepeat question (pre @ h # post)"
    unfolding main by auto
  with main [of hist] show ?thesis by simp
qed

lemmas repeat_eval =
  norm_eval tokens_def STOP_def jaccard_def startsWith_def Let_def

theorem isRepeat_iff_witness:
  "isRepeat (str ''is it a man'') [\<lparr>q = str ''Is it a man?'', a = str ''yes''\<rparr>] \<and>
   duplicates (str ''is it a man'') (str ''Is it a man?'') \<and>
   \<not> isRepeat (str ''Is it from the 20th century?'')
       [\<lparr>q = str ''Is it an animal?'', a = str ''yes''\<rparr>] \<and>
   \<not> duplicates (str ''Is it from the 20th century?'') (str ''Is it an animal?'')"
proof -
  let ?e = "\<lparr>q = str ''Is it a man?'', a = str ''yes''\<rparr>"
  let ?f = "\<lparr>q = str ''Is it an animal?'', a = str ''yes''\<rparr>"
  have 1: "isRepeat (str ''is it a man'') [?e]"
    by (simp add: repeat_eval)
  have 2: "\<not> isRepeat (str ''Is it from the 20th century?'') [?f]"
    by (simp add: repeat_eval)
  from 1 isRepeat_iff [of "str ''is it a man''" "[?e]"]
  have 3: "duplicates (str ''is it a man'') (str ''Is it a man?'')"
    by simp
  from 2 isRepeat_iff [of "str ''Is it from the 20th century?''" "[?f]"]
  have 4: "\<not> duplicates (str ''Is it from the 20th century?'') (str ''Is it an animal?'')"
    by simp
  from 1 2 3 4 show ?thesis by blast
qed

text \<open>
  C5. The candidate \<open>?\<close> normalizes to the empty string and has no tokens; the one earlier
  question is not empty and does not normalize to the empty string. The claim says
  \<open>isRepeat\<close> is false here. It is true: \<open>b.includes(a)\<close> holds for the empty \<open>a\<close> whatever
  \<open>b\<close> is.
\<close>

theorem isRepeat_empty_candidate:
  "norm_str (str ''?'') = [] \<and> tokens (str ''?'') = [] \<and>
   norm_str (str ''Is it an animal?'') = str ''is it an animal'' \<and>
   isRepeat (str ''?'') [\<lparr>q = str ''Is it an animal?'', a = str ''yes''\<rparr>] = True"
  by (simp add: repeat_eval)

section \<open>The user prompt\<close>

declare decimal.simps [simp del]

lemma enumerate_nth_map: "enumerate 0 xs = map (\<lambda>i. (i, xs ! i)) [0..<length xs]"
  by (rule nth_equalityI) (simp_all add: nth_enumerate_eq)

lemma fact_lines_nth:
  "map (\<lambda>(i, x). fact_line rt i x) (enumerate 0 hist) =
     map (\<lambda>i. fact_line rt i (hist ! i)) [0..<length hist]"
  by (simp add: enumerate_nth_map comp_def)

lemma join_Cons_nonempty: "x \<noteq> [] \<Longrightarrow> join sep (x # xs) \<noteq> []"
  by (cases xs) simp_all

lemma fact_line_nonempty: "fact_line rt i x \<noteq> []"
  by (simp add: fact_line_def Let_def str_def)

lemma structuredFacts_eq:
  "structuredFacts rt hist =
     (if hist = [] then str ''(no previous questions)''
      else join [10] (map (\<lambda>i. fact_line rt i (hist ! i)) [0..<length hist]))"
proof (cases hist)
  case Nil
  then show ?thesis by (simp add: structuredFacts_def)
next
  case (Cons x xs)
  then have "join [10] (map (\<lambda>(i, x). fact_line rt i x) (enumerate 0 hist)) \<noteq> []"
    by (simp add: join_Cons_nonempty fact_line_nonempty)
  then show ?thesis
    using Cons by (simp only: structuredFacts_def Let_def fact_lines_nth) simp
qed

lemma buildUser_layout:
  "buildUser rt ctx = user_prompt_around ctx (structuredFacts rt (history ctx))"
  by (simp add: buildUser_def user_prompt_around_def flag_line_def hint_line_def)

text \<open>
  C8, as the claim states it, fails: for the history with the one entry
  \<open>{ q: "Is it a man?", a: "Yes" }\<close> the prompt is not the one with the line
  \<open>Q1: Is it a man? -> Yes\<close>; the source renders \<open>Q1: is it a man? -> yes\<close>.
\<close>

theorem buildUser_entry_text_counterexample:
  "buildUser example_runtime \<lparr>domain = str ''character'',
      history = [\<lparr>q = str ''Is it a man?'', a = str ''Yes''\<rparr>], turns = 1,
      forceFinal = False, hint = []\<rparr>
   \<noteq> buildUserPrompt_spec \<lparr>domain = str ''character'',
      history = [\<lparr>q = str ''Is it a man?'', a = str ''Yes''\<rparr>], turns = 1,
      forceFinal = False, hint = []\<rparr> \<and>
   structuredFacts example_runtime [\<lparr>q = str ''Is it a man?'', a = str ''Yes''\<rparr>]
     = str ''Q1: is it a man? '' @ [8594] @ str '' yes''"
  by (simp add: buildUser_layout buildUserPrompt_spec_def user_prompt_around_def
      structuredFacts_eq fact_line_def fact_line_spec_def example_runtime_def lower_latin1_def
      lower_unit_def str_def decimal.simps)

text \<open>
  C8, amended. \<open>buildUser\<close> is a function of the domain, the history, \<open>forceFinal\<close> and
  the hint (\<open>turns\<close> is not read). The prompt is, line by line: the domain line, the
  heading of the facts, the facts, an empty line, three directives, the flag line for
  \<open>forceFinal\<close>, the line \<open>Player hint: <hint>\<close> when the hint is not empty and the line
  \<open>(no hint)\<close> when it is, and the strict-JSON instruction. The facts are the placeholder
  \<open>(no previous questions)\<close> when the history is empty, and otherwise one line
  \<open>Q{i}: <question> -> <answer>\<close> per entry, in order and numbered from 1, where question
  and answer are what the runtime's \<open>toLowerCase\<close> makes of the entry's texts, whatever
  letters they hold.
\<close>

theorem buildUser_layout_lowercase:
  "buildUser rt ctx =
     user_prompt_around ctx
       (if history ctx = [] then str ''(no previous questions)''
        else join [10]
          (map (\<lambda>i. str ''Q'' @ decimal (i + 1) @ str '': '' @
                  String_toLowerCase rt (q (history ctx ! i)) @ str '' '' @ [8594] @ str '' '' @
                  String_toLowerCase rt (a (history ctx ! i)))
             [0..<length (history ctx)])) \<and>
   buildUser rt (ctx\<lparr>turns := t\<rparr>) = buildUser rt ctx"
  by (simp add: buildUser_layout structuredFacts_eq fact_line_def Let_def
      user_prompt_around_def)

theorem buildUser_layout_lowercase_witness:
  "buildUser example_runtime \<lparr>domain = str ''character'',
      history = [\<lparr>q = str ''Is it a man?'', a = str ''Yes''\<rparr>,
                 \<lparr>q = str ''Est-ce '' @ [201] @ str ''mile Zola ?'', a = str ''NON''\<rparr>], turns = 7,
      forceFinal = True, hint = str ''a king''\<rparr> =
   str ''We are playing 20 Questions. Domain: character.'' @ [10] @
   str ''Here are all facts discovered so far:'' @ [10] @
   str ''Q1: is it a man? '' @ [8594] @ str '' yes'' @ [10] @
   str ''Q2: est-ce '' @ [233] @ str ''mile zola ? '' @ [8594] @ str '' non'' @ [10] @
   [10] @
   str ''Based on these facts, reason logically to choose the next most informative question.'' @ [10] @
   str ''Your question should reduce uncertainty the most and move closer to a confident guess.'' @ [10] @
   str ''Focus on attributes not yet covered (e.g. nationality, occupation, historical era, public role, media type, field of work, notable achievements).'' @ [10] @
   str ''forceFinal=true '' @ [8594] @ str '' make your best final guess.'' @ [10] @
   str ''Player hint: a king'' @ [10] @
   str ''Return ONLY strict JSON.''"
  using buildUser_layout_lowercase [of example_runtime "\<lparr>domain = str ''character'',
      history = [\<lparr>q = str ''Is it a man?'', a = str ''Yes''\<rparr>,
                 \<lparr>q = str ''Est-ce '' @ [201] @ str ''mile Zola ?'', a = str ''NON''\<rparr>], turns = 7,
      forceFinal = True, hint = str ''a king''\<rparr>" 7]
  by (simp add: user_prompt_around_def flag_line_def hint_line_def example_runtime_def
      lower_latin1_def lower_unit_def str_def decimal.simps upt_rec)

section \<open>One attempt\<close>

lemma slice_take: "slice s 0 (int n) = take n s"
  by (simp add: slice_def Let_def min_def)

lemma get_put_same: "get (put obj k v) k = v"
  by (simp add: get_def put_def update_conv')

lemma get_put_other: "k' \<noteq> k \<Longrightarrow> get (put obj k v) k' = get obj k'"
  by (simp add: get_def put_def update_conv')

lemma keys_distinct:
  "str ''type'' \<noteq> str ''question''" "str ''type'' \<noteq> str ''guess''"
  "str ''type'' \<noteq> str ''confidence''" "str ''confidence'' \<noteq> str ''guess''"
  "str ''guess'' \<noteq> str ''confidence''" "str ''question'' \<noteq> str ''guess''"
  "str ''question'' \<noteq> str ''confidence''"
  "str ''ask'' \<noteq> str ''guess''" "str ''ask'' \<noteq> str ''final''"
  by (simp_all add: str_def)

lemma clamp_expression:
  "(if Number_isFinite v
    then (case Number rt v of
            Inl e \<Rightarrow> Inl e
          | Inr n \<Rightarrow> Inr (Math_max (Fin 0) (Math_min (Fin 1) n)))
    else Inr (Fin 0))
     = Inr (Fin (clamped v))"
proof (cases "\<exists>x. v = Num (Fin x)")
  case True
  then obtain x where "v = Num (Fin x)" ..
  then show ?thesis
    by (auto simp: clamped_def Math_max_def Math_min_def max_def min_def)
next
  case False
  then have "\<not> Number_isFinite v"
    by (cases v rule: Number_isFinite.cases) auto
  moreover from False have "clamped v = 0"
    by (auto simp: clamped_def split: jsval.splits jsnum.splits)
  ultimately show ?thesis by simp
qed

lemma truncated_question_Inr:
  "question_text rt obj = Inr s \<Longrightarrow> truncated_question rt obj = take 200 s"
  by (simp add: truncated_question_def)

lemma truncated_guess_Inr:
  "guess_text rt obj = Inr s \<Longrightarrow> truncated_guess rt obj = take 120 s"
  by (simp add: truncated_guess_def)

lemma truncated_question_nonempty:
  "truncated_question rt obj \<noteq> [] \<Longrightarrow>
   \<exists>s. question_text rt obj = Inr s \<and> truncated_question rt obj = take 200 s"
  by (cases "question_text rt obj") (simp_all add: truncated_question_def)

lemma truncated_guess_nonempty:
  "truncated_guess rt obj \<noteq> [] \<Longrightarrow>
   \<exists>s. guess_text rt obj = Inr s \<and> truncated_guess rt obj = take 120 s"
  by (cases "guess_text rt obj") (simp_all add: truncated_guess_def)

lemma loop_body_ask_throws:
  "is_ask obj \<Longrightarrow> question_text rt obj = Inl e \<Longrightarrow> loop_body rt hist obj = Inl e"
  by (simp add: loop_body_def is_ask_def question_text_def)

lemma loop_body_ask:
  "is_ask obj \<Longrightarrow> question_text rt obj = Inr s \<Longrightarrow>
   loop_body rt hist obj =
     (if truncated_question rt obj = [] then Inl (Error (str ''Missing question''))
      else if isRepeat (truncated_question rt obj) hist
        then Inr (Continue (validated rt obj) (corrective (truncated_question rt obj)))
      else Inr (Break (validated rt obj)))"
  using slice_take [of s 200]
  by (simp add: loop_body_def is_ask_def Let_def get_put_same truncated_question_def
      question_text_def validated_def corrective_def)

lemma ask_not_guess: "is_ask obj \<Longrightarrow> \<not> is_guess_or_final obj"
  using keys_distinct by (auto simp: is_ask_def is_guess_or_final_def)

lemma loop_body_guess_throws:
  "is_guess_or_final obj \<Longrightarrow> guess_text rt obj = Inl e \<Longrightarrow> loop_body rt hist obj = Inl e"
  using ask_not_guess [of obj]
  by (auto simp: loop_body_def is_ask_def is_guess_or_final_def guess_text_def)

lemma loop_body_guess:
  "is_guess_or_final obj \<Longrightarrow> guess_text rt obj = Inr s \<Longrightarrow>
   loop_body rt hist obj =
     (if truncated_guess rt obj = [] then Inl (Error (str ''Missing guess''))
      else Inr (Break (validated rt obj)))"
proof -
  assume g: "is_guess_or_final obj" and t: "guess_text rt obj = Inr s"
  then have na: "\<not> is_ask obj" "get obj (str ''type'') \<noteq> Str (str ''ask'')"
    using keys_distinct by (auto simp: is_guess_or_final_def is_ask_def)
  have sl: "slice s 0 120 = take 120 s"
    using slice_take [of s 120] by simp
  from t have t': "String rt (or_else (get obj (str ''guess'')) (Str [])) = Inr s"
    by (simp add: guess_text_def)
  show ?thesis
    using g na unfolding is_guess_or_final_def
    by (simp add: loop_body_def Let_def t' sl get_put_same get_put_other keys_distinct
        clamp_expression truncated_guess_def guess_text_def validated_def)
qed

lemma loop_body_other:
  "\<not> is_ask obj \<Longrightarrow> \<not> is_guess_or_final obj \<Longrightarrow>
   loop_body rt hist obj = Inl (Error (str ''Invalid type''))"
  by (simp add: loop_body_def is_ask_def is_guess_or_final_def)

lemma loop_body_Continue:
  "loop_body rt hist obj = Inr (Continue o' m) \<longleftrightarrow>
     duplicate_ask rt hist obj \<and> o' = validated rt obj \<and>
     m = corrective (truncated_question rt obj)"
proof (cases "is_ask obj")
  case True
  show ?thesis
  proof (cases "question_text rt obj")
    case (Inl e)
    with True show ?thesis
      by (simp add: loop_body_ask_throws duplicate_ask_def truncated_question_def)
  next
    case (Inr s)
    with True show ?thesis
      by (auto simp: loop_body_ask duplicate_ask_def)
  qed
next
  case False
  show ?thesis
  proof (cases "is_guess_or_final obj")
    case True
    then show ?thesis
      using False
      by (cases "guess_text rt obj")
        (auto simp: loop_body_guess loop_body_guess_throws duplicate_ask_def)
  next
    case False
    with \<open>\<not> is_ask obj\<close> show ?thesis
      by (auto simp: loop_body_other duplicate_ask_def)
  qed
qed

lemma loop_body_Break:
  "loop_body rt hist obj = Inr (Break o') \<longleftrightarrow> accepted rt hist obj \<and> o' = validated rt obj"
proof (cases "is_ask obj")
  case True
  show ?thesis
  proof (cases "question_text rt obj")
    case (Inl e)
    with True show ?thesis
      using ask_not_guess [OF True]
      by (simp add: loop_body_ask_throws accepted_def truncated_question_def)
  next
    case (Inr s)
    with True show ?thesis
      using ask_not_guess [OF True] by (auto simp: loop_body_ask accepted_def)
  qed
next
  case False
  show ?thesis
  proof (cases "is_guess_or_final obj")
    case True
    show ?thesis
    proof (cases "guess_text rt obj")
      case (Inl e)
      with True False show ?thesis
        by (simp add: loop_body_guess_throws accepted_def truncated_guess_def)
    next
      case (Inr s)
      with True False show ?thesis
        by (auto simp: loop_body_guess accepted_def)
    qed
  next
    case False
    with \<open>\<not> is_ask obj\<close> show ?thesis
      by (auto simp: loop_body_other accepted_def)
  qed
qed

lemma validated_ask_shape:
  "is_ask obj \<Longrightarrow> truncated_question rt obj \<noteq> [] \<Longrightarrow> ask_shape (validated rt obj)"
proof -
  assume k: "is_ask obj" and ne: "truncated_question rt obj \<noteq> []"
  from ne obtain s where "truncated_question rt obj = take 200 s"
    using truncated_question_nonempty by blast
  then have len: "length (truncated_question rt obj) \<le> 200" by simp
  have t: "get (validated rt obj) (str ''type'') = Str (str ''ask'')"
    using k keys_distinct by (simp add: validated_def get_put_other is_ask_def)
  have qs: "get (validated rt obj) (str ''question'') = Str (truncated_question rt obj)"
    using k by (simp add: validated_def get_put_same)
  show ?thesis
    unfolding ask_shape_def t qs using ne len by simp
qed

lemma clamped_range: "0 \<le> clamped v \<and> clamped v \<le> 1"
  by (auto simp: clamped_def split: jsval.splits jsnum.splits)

lemma validated_guess_shape:
  "is_guess_or_final obj \<Longrightarrow> truncated_guess rt obj \<noteq> [] \<Longrightarrow> guess_shape (validated rt obj)"
proof -
  assume g: "is_guess_or_final obj" and ne: "truncated_guess rt obj \<noteq> []"
  from g have na: "\<not> is_ask obj" using ask_not_guess by blast
  have t: "get (validated rt obj) (str ''type'') = get obj (str ''type'')"
    using na keys_distinct by (simp add: validated_def get_put_other)
  have gs: "get (validated rt obj) (str ''guess'') = Str (truncated_guess rt obj)"
    using na keys_distinct by (simp add: validated_def get_put_other get_put_same)
  have c: "get (validated rt obj) (str ''confidence'') = Num (Fin (clamped (get obj (str ''confidence''))))"
    using na by (simp add: validated_def get_put_same)
  from ne obtain s where "truncated_guess rt obj = take 120 s"
    using truncated_guess_nonempty by blast
  then have len: "length (truncated_guess rt obj) \<le> 120" by simp
  show ?thesis
    unfolding guess_shape_def t gs c
    using g ne len clamped_range by (simp add: is_guess_or_final_def)
qed

section \<open>Truncation and confidence\<close>

declare retry_loop.simps [simp del]

lemma retry_loop_step:
  "n < 3 \<Longrightarrow>
   retry_loop rt cf hist (obj, n, ms) =
     (case cf (n + 1) ms of
        Inl e \<Rightarrow> (Inl e, n + 1, ms)
      | Inr o1 \<Rightarrow>
          (case loop_body rt hist o1 of
             Inl e \<Rightarrow> (Inl e, n + 1, ms)
           | Inr (Continue o2 m) \<Rightarrow> retry_loop rt cf hist (Obj o2, n + 1, ms @ [m])
           | Inr (Break o2) \<Rightarrow> (Inr (Obj o2), n + 1, ms)))"
  by (simp add: retry_loop.simps)

lemma retry_loop_exit: "\<not> n < 3 \<Longrightarrow> retry_loop rt cf hist (obj, n, ms) = (Inr obj, n, ms)"
  by (simp add: retry_loop.simps)

lemma question_text_Str:
  "get obj (str ''question'') = Str s \<Longrightarrow> question_text rt obj = Inr s"
  by (cases "s = []") (simp_all add: question_text_def or_else_def)

lemma guess_text_Str:
  "get obj (str ''guess'') = Str s \<Longrightarrow> guess_text rt obj = Inr s"
  by (cases "s = []") (simp_all add: guess_text_def or_else_def)

lemma truncated_question_Str:
  "get obj (str ''question'') = Str s \<Longrightarrow> truncated_question rt obj = take 200 s"
  by (simp add: question_text_Str truncated_question_Inr)

lemma truncated_guess_Str:
  "get obj (str ''guess'') = Str s \<Longrightarrow> truncated_guess rt obj = take 120 s"
  by (simp add: guess_text_Str truncated_guess_Inr)

lemma validated_question:
  "is_ask obj \<Longrightarrow> get (validated rt obj) (str ''question'') = Str (truncated_question rt obj)"
  by (simp add: validated_def get_put_same)

lemma validated_guess:
  "is_guess_or_final obj \<Longrightarrow>
   get (validated rt obj) (str ''guess'') = Str (truncated_guess rt obj)"
  using ask_not_guess [of obj] keys_distinct
  by (auto simp: validated_def get_put_same get_put_other)

lemma validated_confidence:
  "is_guess_or_final obj \<Longrightarrow>
   get (validated rt obj) (str ''confidence'') = Num (Fin (clamped (get obj (str ''confidence''))))"
  using ask_not_guess [of obj] by (auto simp: validated_def get_put_same)

lemma loop_body_Inr_object: "loop_body rt hist obj = Inr r \<Longrightarrow> result_object r = validated rt obj"
  by (cases r) (simp_all add: loop_body_Continue loop_body_Break)

lemmas object_eval =
  is_ask_def is_guess_or_final_def get_def put_def truncated_question_def truncated_guess_def
  question_text_def guess_text_def or_else_def str_def

text \<open>
  C7. For every guess or final that passes, the confidence of the object is a number in
  \<open>[0, 1]\<close>: a finite number clamped (below 0 to 0, above 1 to 1), and 0 for everything
  that is not a finite number (NaN, an infinity, a missing property, a value that is not
  a number).
\<close>

theorem confidence_clamped:
  "is_guess_or_final obj \<longrightarrow> loop_body rt hist obj = Inr r \<longrightarrow>
     (\<exists>c. get (result_object r) (str ''confidence'') = Num (Fin c) \<and> 0 \<le> c \<and> c \<le> 1 \<and>
        (\<forall>x. get obj (str ''confidence'') = Num (Fin x) \<longrightarrow> c = max 0 (min 1 x)) \<and>
        ((\<forall>x. get obj (str ''confidence'') \<noteq> Num (Fin x)) \<longrightarrow> c = 0))"
proof (intro impI)
  assume g: "is_guess_or_final obj" and r: "loop_body rt hist obj = Inr r"
  let ?v = "get obj (str ''confidence'')"
  have "get (result_object r) (str ''confidence'') = Num (Fin (clamped ?v))"
    using g r by (simp add: loop_body_Inr_object validated_confidence)
  moreover have "\<forall>x. ?v = Num (Fin x) \<longrightarrow> clamped ?v = max 0 (min 1 x)"
    by (simp add: clamped_def)
  moreover have "(\<forall>x. ?v \<noteq> Num (Fin x)) \<longrightarrow> clamped ?v = 0"
    by (auto simp: clamped_def split: jsval.splits jsnum.splits)
  ultimately show "\<exists>c. get (result_object r) (str ''confidence'') = Num (Fin c) \<and> 0 \<le> c \<and> c \<le> 1 \<and>
        (\<forall>x. ?v = Num (Fin x) \<longrightarrow> c = max 0 (min 1 x)) \<and>
        ((\<forall>x. ?v \<noteq> Num (Fin x)) \<longrightarrow> c = 0)"
    using clamped_range [of ?v] by blast
qed

lemma loop_body_guess_eval:
  "is_guess_or_final obj \<Longrightarrow> truncated_guess rt obj \<noteq> [] \<Longrightarrow>
   loop_body rt hist obj = Inr (Break (validated rt obj))"
  by (simp add: loop_body_Break accepted_def)

theorem confidence_clamped_witness:
  "(\<exists>r. loop_body example_runtime []
      [(str ''type'', Str (str ''guess'')), (str ''guess'', Str (str ''Napoleon'')),
       (str ''confidence'', Num (Fin (3 / 2)))] = Inr r \<and>
      get (result_object r) (str ''confidence'') = Num (Fin 1)) \<and>
   (\<exists>r. loop_body example_runtime []
      [(str ''type'', Str (str ''final'')), (str ''guess'', Str (str ''Napoleon'')),
       (str ''confidence'', Num (Fin (- 2 / 10)))] = Inr r \<and>
      get (result_object r) (str ''confidence'') = Num (Fin 0)) \<and>
   (\<exists>r. loop_body example_runtime []
      [(str ''type'', Str (str ''guess'')), (str ''guess'', Str (str ''Napoleon'')),
       (str ''confidence'', Num NaN)] = Inr r \<and>
      get (result_object r) (str ''confidence'') = Num (Fin 0)) \<and>
   (\<exists>r. loop_body example_runtime []
      [(str ''type'', Str (str ''guess'')), (str ''guess'', Str (str ''Napoleon''))] = Inr r \<and>
      get (result_object r) (str ''confidence'') = Num (Fin 0))"
proof -
  let ?rt = example_runtime
  let ?hi = "[(str ''type'', Str (str ''guess'')), (str ''guess'', Str (str ''Napoleon'')),
       (str ''confidence'', Num (Fin (3 / 2)))]"
  let ?lo = "[(str ''type'', Str (str ''final'')), (str ''guess'', Str (str ''Napoleon'')),
       (str ''confidence'', Num (Fin (- 2 / 10)))]"
  let ?nan = "[(str ''type'', Str (str ''guess'')), (str ''guess'', Str (str ''Napoleon'')),
       (str ''confidence'', Num NaN)]"
  let ?none = "[(str ''type'', Str (str ''guess'')), (str ''guess'', Str (str ''Napoleon''))]"
  have hi: "is_guess_or_final ?hi" "truncated_guess ?rt ?hi \<noteq> []"
    "get ?hi (str ''confidence'') = Num (Fin (3 / 2))"
    by (simp_all add: object_eval)
  have lo: "is_guess_or_final ?lo" "truncated_guess ?rt ?lo \<noteq> []"
    "get ?lo (str ''confidence'') = Num (Fin (- 2 / 10))"
    by (simp_all add: object_eval)
  have nan: "is_guess_or_final ?nan" "truncated_guess ?rt ?nan \<noteq> []"
    "get ?nan (str ''confidence'') = Num NaN"
    by (simp_all add: object_eval)
  have none: "is_guess_or_final ?none" "truncated_guess ?rt ?none \<noteq> []"
    "get ?none (str ''confidence'') = Undefined"
    by (simp_all add: object_eval)
  have b1: "loop_body ?rt [] ?hi = Inr (Break (validated ?rt ?hi))"
    by (rule loop_body_guess_eval [OF hi(1,2)])
  from confidence_clamped [of ?hi ?rt "[]" "Break (validated ?rt ?hi)"] hi(1) b1
  obtain c1 where g1: "get (result_object (Break (validated ?rt ?hi))) (str ''confidence'') = Num (Fin c1)"
    and f1: "\<forall>x. get ?hi (str ''confidence'') = Num (Fin x) \<longrightarrow> c1 = max 0 (min 1 x)"
    and z1: "(\<forall>x. get ?hi (str ''confidence'') \<noteq> Num (Fin x)) \<longrightarrow> c1 = 0"
    by blast
  from f1 hi(3) have "c1 = max 0 (min 1 (3 / 2))" by blast
  then have "c1 = 1" by simp
  with b1 g1 have 1: "\<exists>r. loop_body ?rt [] ?hi = Inr r \<and>
      get (result_object r) (str ''confidence'') = Num (Fin 1)"
    by blast
  have b2: "loop_body ?rt [] ?lo = Inr (Break (validated ?rt ?lo))"
    by (rule loop_body_guess_eval [OF lo(1,2)])
  from confidence_clamped [of ?lo ?rt "[]" "Break (validated ?rt ?lo)"] lo(1) b2
  obtain c2 where g2: "get (result_object (Break (validated ?rt ?lo))) (str ''confidence'') = Num (Fin c2)"
    and f2: "\<forall>x. get ?lo (str ''confidence'') = Num (Fin x) \<longrightarrow> c2 = max 0 (min 1 x)"
    and z2: "(\<forall>x. get ?lo (str ''confidence'') \<noteq> Num (Fin x)) \<longrightarrow> c2 = 0"
    by blast
  from f2 lo(3) have "c2 = max 0 (min 1 (- 2 / 10))" by blast
  then have "c2 = 0" by simp
  with b2 g2 have 2: "\<exists>r. loop_body ?rt [] ?lo = Inr r \<and>
      get (result_object r) (str ''confidence'') = Num (Fin 0)"
    by blast
  have b3: "loop_body ?rt [] ?nan = Inr (Break (validated ?rt ?nan))"
    by (rule loop_body_guess_eval [OF nan(1,2)])
  from confidence_clamped [of ?nan ?rt "[]" "Break (validated ?rt ?nan)"] nan(1) b3
  obtain c3 where g3: "get (result_object (Break (validated ?rt ?nan))) (str ''confidence'') = Num (Fin c3)"
    and f3: "\<forall>x. get ?nan (str ''confidence'') = Num (Fin x) \<longrightarrow> c3 = max 0 (min 1 x)"
    and z3: "(\<forall>x. get ?nan (str ''confidence'') \<noteq> Num (Fin x)) \<longrightarrow> c3 = 0"
    by blast
  from z3 nan(3) have "c3 = 0" by simp
  with b3 g3 have 3: "\<exists>r. loop_body ?rt [] ?nan = Inr r \<and>
      get (result_object r) (str ''confidence'') = Num (Fin 0)"
    by blast
  have b4: "loop_body ?rt [] ?none = Inr (Break (validated ?rt ?none))"
    by (rule loop_body_guess_eval [OF none(1,2)])
  from confidence_clamped [of ?none ?rt "[]" "Break (validated ?rt ?none)"] none(1) b4
  obtain c4 where g4: "get (result_object (Break (validated ?rt ?none))) (str ''confidence'') = Num (Fin c4)"
    and f4: "\<forall>x. get ?none (str ''confidence'') = Num (Fin x) \<longrightarrow> c4 = max 0 (min 1 x)"
    and z4: "(\<forall>x. get ?none (str ''confidence'') \<noteq> Num (Fin x)) \<longrightarrow> c4 = 0"
    by blast
  from z4 none(3) have "c4 = 0" by simp
  with b4 g4 have 4: "\<exists>r. loop_body ?rt [] ?none = Inr r \<and>
      get (result_object r) (str ''confidence'') = Num (Fin 0)"
    by blast
  from 1 2 3 4 show ?thesis by blast
qed

text \<open>
  C10. A confidence that is not of number type is stored as 0 for every guess and final
  that passes, whatever \<open>Number\<close> would make of it: \<open>Number.isFinite\<close> tests the value as
  it is. A stored confidence other than 0 comes from a finite number. The string \<open>0.8\<close>,
  which \<open>Number\<close> reads as 0.8, is stored as 0.
\<close>

theorem confidence_not_coerced:
  "is_guess_or_final obj \<longrightarrow> loop_body rt hist obj = Inr r \<longrightarrow>
     ((\<forall>n. get obj (str ''confidence'') \<noteq> Num n) \<longrightarrow>
        get (result_object r) (str ''confidence'') = Num (Fin 0)) \<and>
     (get (result_object r) (str ''confidence'') \<noteq> Num (Fin 0) \<longrightarrow>
        (\<exists>x. get obj (str ''confidence'') = Num (Fin x)))"
proof (intro impI)
  assume g: "is_guess_or_final obj" and r: "loop_body rt hist obj = Inr r"
  let ?v = "get obj (str ''confidence'')"
  have c: "get (result_object r) (str ''confidence'') = Num (Fin (clamped ?v))"
    using g r by (simp add: loop_body_Inr_object validated_confidence)
  have z: "(\<forall>x. ?v \<noteq> Num (Fin x)) \<longrightarrow> clamped ?v = 0"
    by (auto simp: clamped_def split: jsval.splits jsnum.splits)
  show "((\<forall>n. ?v \<noteq> Num n) \<longrightarrow> get (result_object r) (str ''confidence'') = Num (Fin 0)) \<and>
     (get (result_object r) (str ''confidence'') \<noteq> Num (Fin 0) \<longrightarrow> (\<exists>x. ?v = Num (Fin x)))"
    unfolding c using z by auto
qed

theorem confidence_not_coerced_witness:
  "Number example_runtime (Str (str ''0.8'')) = Inr (Fin (8 / 10)) \<and>
   (\<exists>r. loop_body example_runtime []
      [(str ''type'', Str (str ''guess'')), (str ''guess'', Str (str ''Napoleon'')),
       (str ''confidence'', Str (str ''0.8''))] = Inr r \<and>
      get (result_object r) (str ''confidence'') = Num (Fin 0))"
proof -
  let ?rt = example_runtime
  let ?obj = "[(str ''type'', Str (str ''guess'')), (str ''guess'', Str (str ''Napoleon'')),
       (str ''confidence'', Str (str ''0.8''))]"
  have n: "Number ?rt (Str (str ''0.8'')) = Inr (Fin (8 / 10))"
    by (simp add: example_runtime_def)
  have o: "is_guess_or_final ?obj" "truncated_guess ?rt ?obj \<noteq> []"
    "get ?obj (str ''confidence'') = Str (str ''0.8'')"
    by (simp_all add: object_eval)
  have "\<exists>r. loop_body ?rt [] ?obj = Inr r \<and>
      get (result_object r) (str ''confidence'') = Num (Fin 0)"
    using confidence_not_coerced [of ?obj ?rt "[]" "Break (validated ?rt ?obj)"]
      loop_body_guess_eval [OF o(1,2), of "[]"] o by auto
  with n show ?thesis ..
qed

section \<open>The retry loop\<close>

lemma attempts_bound: "fst (snd (retry_loop rt cf hist (obj, n, ms))) \<le> max n 3"
proof (induction "3 - n" arbitrary: obj n ms)
  case 0
  then show ?case by (simp add: retry_loop_exit)
next
  case (Suc k)
  then have n: "n < 3" and k: "k = 3 - (n + 1)" by simp_all
  have ih: "fst (snd (retry_loop rt cf hist (obj', n + 1, ms'))) \<le> 3" for obj' ms'
    using Suc.hyps(1) [OF k, of obj' ms'] n by simp
  show ?case
    using n ih
    by (simp add: retry_loop_step split: sum.splits body_result.splits)
qed

lemma corrected_messages_Nil: "corrected_messages rt ms [] = ms"
  by (simp add: corrected_messages_def)

lemma corrected_messages_Cons:
  "corrected_messages rt ms (x # xs) =
     corrected_messages rt (ms @ [corrective (truncated_question rt x)]) xs"
  by (simp add: corrected_messages_def)

lemma duplicate_step:
  "n < 3 \<Longrightarrow> cf (n + 1) ms = Inr x \<Longrightarrow> duplicate_ask rt hist x \<Longrightarrow>
   retry_loop rt cf hist (obj, n, ms) =
     retry_loop rt cf hist
       (Obj (validated rt x), n + 1, ms @ [corrective (truncated_question rt x)])"
proof -
  assume n: "n < 3" and c: "cf (n + 1) ms = Inr x" and d: "duplicate_ask rt hist x"
  from d have "loop_body rt hist x =
      Inr (Continue (validated rt x) (corrective (truncated_question rt x)))"
    by (simp add: loop_body_Continue)
  with n c show ?thesis by (simp add: retry_loop_step)
qed

lemma accepted_step:
  "n < 3 \<Longrightarrow> cf (n + 1) ms = Inr x \<Longrightarrow> accepted rt hist x \<Longrightarrow>
   retry_loop rt cf hist (obj, n, ms) = (Inr (Obj (validated rt x)), n + 1, ms)"
proof -
  assume n: "n < 3" and c: "cf (n + 1) ms = Inr x" and d: "accepted rt hist x"
  from d have "loop_body rt hist x = Inr (Break (validated rt x))"
    by (simp add: loop_body_Break)
  with n c show ?thesis by (simp add: retry_loop_step)
qed

lemma error_step:
  "n < 3 \<Longrightarrow> cf (n + 1) ms = Inr x \<Longrightarrow> loop_body rt hist x = Inl e \<Longrightarrow>
   retry_loop rt cf hist (obj, n, ms) = (Inl e, n + 1, ms)"
  by (simp add: retry_loop_step)

lemma client_error_step:
  "n < 3 \<Longrightarrow> cf (n + 1) ms = Inl e \<Longrightarrow>
   retry_loop rt cf hist (obj, n, ms) = (Inl e, n + 1, ms)"
  by (simp add: retry_loop_step)

lemma duplicates_run:
  assumes "n + length xs \<le> 3"
    and "\<forall>i < length xs. cf (n + i + 1) (corrected_messages rt ms (take i xs)) = Inr (xs ! i) \<and>
           duplicate_ask rt hist (xs ! i)"
  shows "retry_loop rt cf hist (obj, n, ms) =
     retry_loop rt cf hist
       (if xs = [] then obj else Obj (validated rt (last xs)), n + length xs,
        corrected_messages rt ms xs)"
  using assms
proof (induction xs arbitrary: obj n ms)
  case Nil
  then show ?case by (simp add: corrected_messages_Nil)
next
  case (Cons x xs)
  from Cons.prems(1) have n: "n < 3" by simp
  from Cons.prems(2) have "cf (n + 0 + 1) (corrected_messages rt ms (take 0 (x # xs))) = Inr ((x # xs) ! 0) \<and>
      duplicate_ask rt hist ((x # xs) ! 0)"
    by blast
  then have c: "cf (n + 1) ms = Inr x" and d: "duplicate_ask rt hist x"
    by (simp_all add: corrected_messages_Nil)
  let ?ms = "ms @ [corrective (truncated_question rt x)]"
  have rest: "\<forall>i < length xs. cf (n + 1 + i + 1) (corrected_messages rt ?ms (take i xs)) = Inr (xs ! i) \<and>
      duplicate_ask rt hist (xs ! i)"
  proof (intro allI impI)
    fix i
    assume "i < length xs"
    then have "Suc i < length (x # xs)" by simp
    with Cons.prems(2) have "cf (n + Suc i + 1) (corrected_messages rt ms (take (Suc i) (x # xs))) =
        Inr ((x # xs) ! Suc i) \<and> duplicate_ask rt hist ((x # xs) ! Suc i)"
      by blast
    then show "cf (n + 1 + i + 1) (corrected_messages rt ?ms (take i xs)) = Inr (xs ! i) \<and>
        duplicate_ask rt hist (xs ! i)"
      by (simp add: corrected_messages_Cons)
  qed
  have len: "n + 1 + length xs \<le> 3" using Cons.prems(1) by simp
  have "retry_loop rt cf hist (obj, n, ms) =
      retry_loop rt cf hist (Obj (validated rt x), n + 1, ?ms)"
    using n c d by (rule duplicate_step)
  also have "\<dots> = retry_loop rt cf hist
      (if xs = [] then Obj (validated rt x) else Obj (validated rt (last xs)),
       n + 1 + length xs, corrected_messages rt ?ms xs)"
    using len rest by (rule Cons.IH)
  finally show ?case
    by (simp add: corrected_messages_Cons)
qed

lemma retry_loop_result:
  "retry_loop rt cf hist (obj, n, ms) = (Inr v, n', ms') \<Longrightarrow>
     (v = obj \<and> \<not> n < 3) \<or>
     (\<exists>k ms0 x. n < k \<and> k \<le> 3 \<and> cf k ms0 = Inr x \<and>
        (duplicate_ask rt hist x \<or> accepted rt hist x) \<and> v = Obj (validated rt x))"
proof (induction "3 - n" arbitrary: obj n ms)
  case 0
  then show ?case by (simp add: retry_loop_exit)
next
  case (Suc j)
  then have n: "n < 3" and j: "j = 3 - (n + 1)" by simp_all
  let ?goal = "\<exists>k ms0 x. n < k \<and> k \<le> 3 \<and> cf k ms0 = Inr x \<and>
        (duplicate_ask rt hist x \<or> accepted rt hist x) \<and> v = Obj (validated rt x)"
  from Suc.prems n obtain x where c: "cf (n + 1) ms = Inr x"
    by (cases "cf (n + 1) ms") (auto simp: retry_loop_step)
  from Suc.prems n c obtain r where b: "loop_body rt hist x = Inr r"
    by (cases "loop_body rt hist x") (auto simp: retry_loop_step)
  have ?goal
  proof (cases r)
    case (Break o2)
    with b have a: "accepted rt hist x" and o2: "o2 = validated rt x"
      by (simp_all add: loop_body_Break)
    from Suc.prems n c b Break have "v = Obj o2" by (simp add: retry_loop_step)
    with a o2 c n show ?thesis
      by (intro exI [of _ "n + 1"] exI [of _ ms] exI [of _ x]) simp
  next
    case (Continue o2 m)
    with b have d: "duplicate_ask rt hist x" and o2: "o2 = validated rt x"
      by (simp_all add: loop_body_Continue)
    from Suc.prems n c b Continue
    have "retry_loop rt cf hist (Obj o2, n + 1, ms @ [m]) = (Inr v, n', ms')"
      by (simp add: retry_loop_step)
    from Suc.hyps(1) [OF j this]
    consider "v = Obj o2" | k ms0 y where "n + 1 < k" "k \<le> 3" "cf k ms0 = Inr y"
      "duplicate_ask rt hist y \<or> accepted rt hist y" "v = Obj (validated rt y)"
      by blast
    then show ?thesis
    proof cases
      case 1
      with d o2 c n show ?thesis
        by (intro exI [of _ "n + 1"] exI [of _ ms] exI [of _ x]) simp
    next
      case 2
      then show ?thesis
        by (intro exI [of _ k] exI [of _ ms0] exI [of _ y]) simp
    qed
  qed
  then show ?case ..
qed

lemma validated_other:
  "(is_ask obj \<longrightarrow> k \<noteq> str ''question'') \<Longrightarrow>
   (\<not> is_ask obj \<longrightarrow> k \<noteq> str ''guess'' \<and> k \<noteq> str ''confidence'') \<Longrightarrow>
   get (validated rt obj) k = get obj k"
  by (auto simp: validated_def get_put_other)

lemma validated_shape:
  "duplicate_ask rt hist x \<or> accepted rt hist x \<Longrightarrow>
   (is_ask x \<and> ask_shape (validated rt x)) \<or> (is_guess_or_final x \<and> guess_shape (validated rt x))"
  by (auto simp: duplicate_ask_def accepted_def validated_ask_shape validated_guess_shape)

lemma step_unfold:
  "step rt key cf body =
     (if key = None \<or> key = Some [] then Status500 (str ''Server missing FIREWORKS_API_KEY'')
      else (case fst (retry_loop rt cf (request_history body)
                   (Undefined, 0, initial_messages rt body)) of
              Inr obj \<Rightarrow> Status200 obj
            | Inl e \<Rightarrow> Status500 (if message e \<noteq> [] then message e else str ''Server error'')))"
  by (simp add: step_def initial_messages_def request_history_def Let_def)

lemma step_200:
  "step rt key cf body = Status200 v \<Longrightarrow>
   \<exists>n ms. retry_loop rt cf (request_history body) (Undefined, 0, initial_messages rt body)
     = (Inr v, n, ms)"
proof -
  assume s: "step rt key cf body = Status200 v"
  let ?R = "retry_loop rt cf (request_history body) (Undefined, 0, initial_messages rt body)"
  from s have "fst ?R = Inr v"
    unfolding step_unfold by (cases "fst ?R") (simp_all split: if_splits)
  then have "?R = (Inr v, fst (snd ?R), snd (snd ?R))"
    by (metis prod.collapse)
  then show ?thesis by blast
qed

section \<open>The protocol of the loop and the shape of the answer\<close>

text \<open>
  C1, as the claim states it, fails in two places. A guess whose guess is empty does not
  end the loop with that action: the request fails with \<open>Missing guess\<close>. An ask whose
  question is empty is flagged by the duplicate detector against a history that is not
  empty, yet no corrective message is appended and nothing is retried: the request fails
  with \<open>Missing question\<close> after one attempt.
\<close>

theorem retry_loop_empty_field_counterexample:
  "retry_loop example_runtime
     (scripted [[(str ''type'', Str (str ''guess'')), (str ''guess'', Str [])]])
     [] (Undefined, 0, [])
     = (Inl (Error (str ''Missing guess'')), 1, []) \<and>
   isRepeat
     (truncated_question example_runtime
        [(str ''type'', Str (str ''ask'')), (str ''question'', Str [])])
     [\<lparr>q = str ''Is it a man?'', a = str ''yes''\<rparr>] \<and>
   retry_loop example_runtime
     (scripted [[(str ''type'', Str (str ''ask'')), (str ''question'', Str [])]])
     [\<lparr>q = str ''Is it a man?'', a = str ''yes''\<rparr>] (Undefined, 0, [])
     = (Inl (Error (str ''Missing question'')), 1, [])"
proof -
  let ?rt = example_runtime
  let ?g = "[(str ''type'', Str (str ''guess'')), (str ''guess'', Str [])]"
  let ?k = "[(str ''type'', Str (str ''ask'')), (str ''question'', Str [])]"
  let ?h = "[\<lparr>q = str ''Is it a man?'', a = str ''yes''\<rparr>]"
  have g: "is_guess_or_final ?g" "truncated_guess ?rt ?g = []" "guess_text ?rt ?g = Inr []"
    by (simp_all add: object_eval)
  have k: "is_ask ?k" "truncated_question ?rt ?k = []" "question_text ?rt ?k = Inr []"
    by (simp_all add: object_eval)
  have 1: "retry_loop ?rt (scripted [?g]) [] (Undefined, 0, []) =
      (Inl (Error (str ''Missing guess'')), 1, [])"
    using g by (simp add: retry_loop_step loop_body_guess [OF g(1,3)] scripted_def)
  have 2: "isRepeat (truncated_question ?rt ?k) ?h"
    unfolding k(2) by (simp add: repeat_eval)
  have 3: "retry_loop ?rt (scripted [?k]) ?h (Undefined, 0, []) =
      (Inl (Error (str ''Missing question'')), 1, [])"
    using k by (simp add: retry_loop_step loop_body_ask [OF k(1,3)] scripted_def)
  from 1 2 3 show ?thesis by blast
qed

text \<open>
  C1, amended. The loop makes at most 3 attempts. Let the first attempts be duplicate
  asks: each answers the messages so far with an ask whose truncated question is not
  empty and is flagged against the history. Then exactly one corrective system message
  naming that question has been appended for each of them, and the loop goes on from
  there: with these messages, so many attempts made and the last of the asks in \<open>obj\<close>.
  If fewer than 3 were made, the next attempt is made with the messages so extended, and
  \<^item> if it is one more duplicate ask, its corrective message is appended and the loop
    goes on behind it;
  \<^item> if it is accepted (a non-duplicate ask whose truncated question is not empty, or a
    guess or final whose truncated guess is not empty), the loop ends at once with that
    action, validated;
  \<^item> if it throws, the loop ends at once with that exception, no message is appended
    and nothing is retried: \<open>Missing question\<close> for an ask whose question truncates to the
    empty string, \<open>Missing guess\<close> for a guess or final whose guess truncates to the empty
    string, and whatever else the body or the inference client throws.
  If all 3 attempts are duplicate asks, the loop ends with the last action, and the
  request is answered with it under status 200, not with an error.
\<close>

theorem retry_loop_protocol:
  "fst (snd (retry_loop rt cf hist (Undefined, 0, msgs))) \<le> 3 \<and>
   ((\<forall>i < length xs. cf (i + 1) (corrected_messages rt msgs (take i xs)) = Inr (xs ! i) \<and>
        duplicate_ask rt hist (xs ! i)) \<longrightarrow>
      (length xs \<le> 3 \<longrightarrow>
         retry_loop rt cf hist (Undefined, 0, msgs) =
           retry_loop rt cf hist
             (if xs = [] then Undefined else Obj (validated rt (last xs)), length xs,
              corrected_messages rt msgs xs)) \<and>
      (length xs < 3 \<and> cf (length xs + 1) (corrected_messages rt msgs xs) = Inr x \<and>
       duplicate_ask rt hist x \<longrightarrow>
         retry_loop rt cf hist (Undefined, 0, msgs) =
           retry_loop rt cf hist
             (Obj (validated rt x), length xs + 1,
              corrected_messages rt msgs xs @ [corrective (truncated_question rt x)])) \<and>
      (length xs < 3 \<and> cf (length xs + 1) (corrected_messages rt msgs xs) = Inr x \<and>
       accepted rt hist x \<longrightarrow>
         retry_loop rt cf hist (Undefined, 0, msgs) =
           (Inr (Obj (validated rt x)), length xs + 1, corrected_messages rt msgs xs)) \<and>
      (length xs < 3 \<and> cf (length xs + 1) (corrected_messages rt msgs xs) = Inr x \<and>
       is_ask x \<and> (\<exists>s. question_text rt x = Inr s \<and> take 200 s = []) \<longrightarrow>
         retry_loop rt cf hist (Undefined, 0, msgs) =
           (Inl (Error (str ''Missing question'')), length xs + 1,
            corrected_messages rt msgs xs)) \<and>
      (length xs < 3 \<and> cf (length xs + 1) (corrected_messages rt msgs xs) = Inr x \<and>
       is_guess_or_final x \<and> (\<exists>s. guess_text rt x = Inr s \<and> take 120 s = []) \<longrightarrow>
         retry_loop rt cf hist (Undefined, 0, msgs) =
           (Inl (Error (str ''Missing guess'')), length xs + 1,
            corrected_messages rt msgs xs)) \<and>
      (length xs < 3 \<and> cf (length xs + 1) (corrected_messages rt msgs xs) = Inr x \<and>
       loop_body rt hist x = Inl e \<longrightarrow>
         retry_loop rt cf hist (Undefined, 0, msgs) =
           (Inl e, length xs + 1, corrected_messages rt msgs xs)) \<and>
      (length xs < 3 \<and> cf (length xs + 1) (corrected_messages rt msgs xs) = Inl e \<longrightarrow>
         retry_loop rt cf hist (Undefined, 0, msgs) =
           (Inl e, length xs + 1, corrected_messages rt msgs xs)) \<and>
      (length xs = 3 \<longrightarrow>
         retry_loop rt cf hist (Undefined, 0, msgs) =
           (Inr (Obj (validated rt (last xs))), 3, corrected_messages rt msgs xs) \<and>
         (key \<noteq> None \<and> key \<noteq> Some [] \<and> hist = request_history body \<and>
          msgs = initial_messages rt body \<longrightarrow>
            step rt key cf body = Status200 (Obj (validated rt (last xs))))))"
proof -
  let ?R = "retry_loop rt cf hist (Undefined, 0, msgs)"
  let ?ms = "corrected_messages rt msgs xs"
  have bound: "fst (snd ?R) \<le> 3"
    using attempts_bound [of rt cf hist Undefined 0 msgs] by simp
  have rest: "(length xs \<le> 3 \<longrightarrow>
         ?R = retry_loop rt cf hist
             (if xs = [] then Undefined else Obj (validated rt (last xs)), length xs, ?ms)) \<and>
      (length xs < 3 \<and> cf (length xs + 1) ?ms = Inr x \<and> duplicate_ask rt hist x \<longrightarrow>
         ?R = retry_loop rt cf hist
             (Obj (validated rt x), length xs + 1, ?ms @ [corrective (truncated_question rt x)])) \<and>
      (length xs < 3 \<and> cf (length xs + 1) ?ms = Inr x \<and> accepted rt hist x \<longrightarrow>
         ?R = (Inr (Obj (validated rt x)), length xs + 1, ?ms)) \<and>
      (length xs < 3 \<and> cf (length xs + 1) ?ms = Inr x \<and>
       is_ask x \<and> (\<exists>s. question_text rt x = Inr s \<and> take 200 s = []) \<longrightarrow>
         ?R = (Inl (Error (str ''Missing question'')), length xs + 1, ?ms)) \<and>
      (length xs < 3 \<and> cf (length xs + 1) ?ms = Inr x \<and>
       is_guess_or_final x \<and> (\<exists>s. guess_text rt x = Inr s \<and> take 120 s = []) \<longrightarrow>
         ?R = (Inl (Error (str ''Missing guess'')), length xs + 1, ?ms)) \<and>
      (length xs < 3 \<and> cf (length xs + 1) ?ms = Inr x \<and> loop_body rt hist x = Inl e \<longrightarrow>
         ?R = (Inl e, length xs + 1, ?ms)) \<and>
      (length xs < 3 \<and> cf (length xs + 1) ?ms = Inl e \<longrightarrow>
         ?R = (Inl e, length xs + 1, ?ms)) \<and>
      (length xs = 3 \<longrightarrow>
         ?R = (Inr (Obj (validated rt (last xs))), 3, ?ms) \<and>
         (key \<noteq> None \<and> key \<noteq> Some [] \<and> hist = request_history body \<and>
          msgs = initial_messages rt body \<longrightarrow>
            step rt key cf body = Status200 (Obj (validated rt (last xs)))))"
    if d: "\<forall>i < length xs. cf (i + 1) (corrected_messages rt msgs (take i xs)) = Inr (xs ! i) \<and>
        duplicate_ask rt hist (xs ! i)"
  proof -
    let ?S = "retry_loop rt cf hist
        (if xs = [] then Undefined else Obj (validated rt (last xs)), length xs, ?ms)"
    have run: "?R = ?S" if "length xs \<le> 3"
      using duplicates_run [of 0 xs cf rt msgs hist Undefined] that d by simp
    have dup: "?R = retry_loop rt cf hist
        (Obj (validated rt x), length xs + 1, ?ms @ [corrective (truncated_question rt x)])"
      if "length xs < 3" "cf (length xs + 1) ?ms = Inr x" "duplicate_ask rt hist x"
      using run that by (simp add: duplicate_step)
    have acc: "?R = (Inr (Obj (validated rt x)), length xs + 1, ?ms)"
      if "length xs < 3" "cf (length xs + 1) ?ms = Inr x" "accepted rt hist x"
      using run that by (simp add: accepted_step)
    have err: "?R = (Inl e', length xs + 1, ?ms)"
      if "length xs < 3" "cf (length xs + 1) ?ms = Inr x" "loop_body rt hist x = Inl e'" for e'
      using run that by (simp add: error_step)
    have mq: "?R = (Inl (Error (str ''Missing question'')), length xs + 1, ?ms)"
      if "length xs < 3" "cf (length xs + 1) ?ms = Inr x" "is_ask x"
        "\<exists>s. question_text rt x = Inr s \<and> take 200 s = []"
    proof -
      from that(4) obtain s where s: "question_text rt x = Inr s" "take 200 s = []" by blast
      then have "loop_body rt hist x = Inl (Error (str ''Missing question''))"
        using that(3) by (simp add: loop_body_ask truncated_question_Inr)
      with that(1,2) show ?thesis by (rule err)
    qed
    have mg: "?R = (Inl (Error (str ''Missing guess'')), length xs + 1, ?ms)"
      if "length xs < 3" "cf (length xs + 1) ?ms = Inr x" "is_guess_or_final x"
        "\<exists>s. guess_text rt x = Inr s \<and> take 120 s = []"
    proof -
      from that(4) obtain s where s: "guess_text rt x = Inr s" "take 120 s = []" by blast
      then have "loop_body rt hist x = Inl (Error (str ''Missing guess''))"
        using that(3) by (simp add: loop_body_guess truncated_guess_Inr)
      with that(1,2) show ?thesis by (rule err)
    qed
    have cli: "?R = (Inl e, length xs + 1, ?ms)"
      if "length xs < 3" "cf (length xs + 1) ?ms = Inl e"
      using run that by (simp add: client_error_step)
    have ex: "?R = (Inr (Obj (validated rt (last xs))), 3, ?ms)" if "length xs = 3"
    proof -
      from that have "xs \<noteq> []" by auto
      with run that show ?thesis by (simp add: retry_loop_exit)
    qed
    have st: "step rt key cf body = Status200 (Obj (validated rt (last xs)))"
      if "length xs = 3" "key \<noteq> None \<and> key \<noteq> Some [] \<and> hist = request_history body \<and>
          msgs = initial_messages rt body"
      using ex [OF that(1)] that(2) by (simp add: step_unfold)
    from run dup acc mq mg err [of e] cli ex st show ?thesis by blast
  qed
  from bound rest show ?thesis by blast
qed

lemmas loop_eval =
  object_eval repeat_eval duplicate_ask_def accepted_def corrected_messages_def
  validated_def All_less_Suc

theorem retry_loop_protocol_witness:
  "retry_loop example_runtime
     (scripted
        [[(str ''type'', Str (str ''ask'')), (str ''question'', Str (str ''is it a man''))],
         [(str ''type'', Str (str ''ask'')),
          (str ''question'', Str (str ''Is the person a public figure?''))]])
     [\<lparr>q = str ''Is it a man?'', a = str ''yes''\<rparr>] (Undefined, 0, [])
     = (Inr (Obj [(str ''type'', Str (str ''ask'')),
                  (str ''question'', Str (str ''Is the person a public figure?''))]),
        2, [corrective (str ''is it a man'')]) \<and>
   retry_loop example_runtime
     (scripted
        [[(str ''type'', Str (str ''ask'')), (str ''question'', Str (str ''is it a man''))],
         [(str ''type'', Str (str ''ask'')), (str ''question'', Str (str ''is it a man''))],
         [(str ''type'', Str (str ''ask'')), (str ''question'', Str (str ''is it a man''))]])
     [\<lparr>q = str ''Is it a man?'', a = str ''yes''\<rparr>] (Undefined, 0, [])
     = (Inr (Obj [(str ''type'', Str (str ''ask'')), (str ''question'', Str (str ''is it a man''))]),
        3, [corrective (str ''is it a man''), corrective (str ''is it a man''),
            corrective (str ''is it a man'')]) \<and>
   retry_loop example_runtime
     (scripted
        [[(str ''type'', Str (str ''ask'')), (str ''question'', Str (str ''is it a man''))],
         [(str ''type'', Str (str ''ask'')), (str ''question'', Str [])]])
     [\<lparr>q = str ''Is it a man?'', a = str ''yes''\<rparr>] (Undefined, 0, [])
     = (Inl (Error (str ''Missing question'')), 2, [corrective (str ''is it a man'')]) \<and>
   retry_loop example_runtime
     (scripted
        [[(str ''type'', Str (str ''ask'')), (str ''question'', Str (str ''is it a man''))],
         [(str ''type'', Str (str ''ask'')),
          (str ''question'', Obj [(str ''toString'', Num (Fin 1))])]])
     [\<lparr>q = str ''Is it a man?'', a = str ''yes''\<rparr>] (Undefined, 0, [])
     = (Inl (TypeError (str ''Cannot convert object to primitive value'')), 2,
        [corrective (str ''is it a man'')])"
proof -
  let ?rt = example_runtime
  let ?dup = "[(str ''type'', Str (str ''ask'')), (str ''question'', Str (str ''is it a man''))]"
  let ?new = "[(str ''type'', Str (str ''ask'')),
               (str ''question'', Str (str ''Is the person a public figure?''))]"
  let ?empty = "[(str ''type'', Str (str ''ask'')), (str ''question'', Str [])]"
  let ?odd = "[(str ''type'', Str (str ''ask'')),
               (str ''question'', Obj [(str ''toString'', Num (Fin 1))])]"
  let ?te = "TypeError (str ''Cannot convert object to primitive value'')"
  let ?h = "[\<lparr>q = str ''Is it a man?'', a = str ''yes''\<rparr>]"
  have d: "duplicate_ask ?rt ?h ?dup"
    by (simp add: loop_eval)
  have a: "accepted ?rt ?h ?new"
    by (simp add: loop_eval)
  have vd: "validated ?rt ?dup = ?dup" and vn: "validated ?rt ?new = ?new"
    by (simp_all add: loop_eval)
  have td: "truncated_question ?rt ?dup = str ''is it a man''"
    by (simp add: object_eval)
  have e: "is_ask ?empty" "\<exists>s. question_text ?rt ?empty = Inr s \<and> take 200 s = []"
    by (simp_all add: object_eval)
  have o: "is_ask ?odd" "question_text ?rt ?odd = Inl ?te"
    by (simp_all add: object_eval)
  from o have ob: "loop_body ?rt ?h ?odd = Inl ?te"
    by (rule loop_body_ask_throws)
  have c1: "corrected_messages ?rt [] [?dup] = [corrective (str ''is it a man'')]"
    by (simp add: corrected_messages_def td)
  have h1: "\<forall>i < length [?dup]. scripted [?dup, y] (i + 1) (corrected_messages ?rt [] (take i [?dup])) =
      Inr ([?dup] ! i) \<and> duplicate_ask ?rt ?h ([?dup] ! i)" for y
    using d by (simp add: scripted_def)
  have l1: "length [?dup] < 3"
    by simp
  have n1: "scripted [?dup, y] (length [?dup] + 1) (corrected_messages ?rt [] [?dup]) = Inr y" for y
    by (simp add: scripted_def)
  note t1 = retry_loop_protocol [where rt = ?rt and cf = "scripted [?dup, ?new]" and hist = ?h
    and msgs = "[]" and xs = "[?dup]" and x = ?new, THEN conjunct2, THEN mp, OF h1]
  note acc = t1 [THEN conjunct2, THEN conjunct2, THEN conjunct1, THEN mp,
    OF conjI [OF l1 conjI [OF n1 a]]]
  have 1: "retry_loop ?rt (scripted [?dup, ?new]) ?h (Undefined, 0, []) =
      (Inr (Obj ?new), 2, [corrective (str ''is it a man'')])"
    unfolding acc by (simp add: vn c1)
  have h3: "\<forall>i < length [?dup, ?dup, ?dup].
      scripted [?dup, ?dup, ?dup] (i + 1) (corrected_messages ?rt [] (take i [?dup, ?dup, ?dup])) =
      Inr ([?dup, ?dup, ?dup] ! i) \<and> duplicate_ask ?rt ?h ([?dup, ?dup, ?dup] ! i)"
    using d by (simp add: All_less_Suc scripted_def)
  have l3: "length [?dup, ?dup, ?dup] = 3"
    by simp
  note t2 = retry_loop_protocol [where rt = ?rt and cf = "scripted [?dup, ?dup, ?dup]"
    and hist = ?h and msgs = "[]" and xs = "[?dup, ?dup, ?dup]", THEN conjunct2, THEN mp, OF h3]
  note exh = t2 [THEN conjunct2, THEN conjunct2, THEN conjunct2, THEN conjunct2,
    THEN conjunct2, THEN conjunct2, THEN conjunct2, THEN mp, OF l3, THEN conjunct1]
  have 2: "retry_loop ?rt (scripted [?dup, ?dup, ?dup]) ?h (Undefined, 0, []) =
      (Inr (Obj ?dup), 3, [corrective (str ''is it a man''), corrective (str ''is it a man''),
            corrective (str ''is it a man'')])"
    unfolding exh by (simp add: vd td corrected_messages_def)
  note t3 = retry_loop_protocol [where rt = ?rt and cf = "scripted [?dup, ?empty]" and hist = ?h
    and msgs = "[]" and xs = "[?dup]" and x = ?empty, THEN conjunct2, THEN mp, OF h1]
  note mq = t3 [THEN conjunct2, THEN conjunct2, THEN conjunct2, THEN conjunct1, THEN mp,
    OF conjI [OF l1 conjI [OF n1 conjI [OF e]]]]
  have 3: "retry_loop ?rt (scripted [?dup, ?empty]) ?h (Undefined, 0, []) =
      (Inl (Error (str ''Missing question'')), 2, [corrective (str ''is it a man'')])"
    unfolding mq by (simp add: c1)
  note t4 = retry_loop_protocol [where rt = ?rt and cf = "scripted [?dup, ?odd]" and hist = ?h
    and msgs = "[]" and xs = "[?dup]" and x = ?odd and e = ?te, THEN conjunct2, THEN mp, OF h1]
  note thr = t4 [THEN conjunct2, THEN conjunct2, THEN conjunct2, THEN conjunct2,
    THEN conjunct2, THEN conjunct1, THEN mp, OF conjI [OF l1 conjI [OF n1 ob]]]
  have 4: "retry_loop ?rt (scripted [?dup, ?odd]) ?h (Undefined, 0, []) =
      (Inl ?te, 2, [corrective (str ''is it a man'')])"
    unfolding thr by (simp add: c1)
  from 1 2 3 4 show ?thesis
    by (intro conjI)
qed

lemma shapes_exclusive: "\<not> (ask_shape obj \<and> guess_shape obj)"
  using keys_distinct by (auto simp: ask_shape_def guess_shape_def)

text \<open>
  C4, as the claim states it, fails: when the model's object is an ask that also carries
  a \<open>guess\<close> and a \<open>note\<close>, the object returned under status 200 carries them too.
\<close>

theorem step_extra_fields_counterexample:
  "step example_runtime (Some (str ''key''))
     (scripted [[(str ''type'', Str (str ''ask'')), (str ''question'', Str (str ''Is it real?'')),
                 (str ''guess'', Str (str ''Einstein'')), (str ''note'', Bool True)]])
     \<lparr>body_domain = None, body_history = None, body_turns = None, body_forceFinal = None,
      body_hint = None\<rparr>
   = Status200 (Obj [(str ''type'', Str (str ''ask'')), (str ''question'', Str (str ''Is it real?'')),
                     (str ''guess'', Str (str ''Einstein'')), (str ''note'', Bool True)])"
proof -
  let ?rt = example_runtime
  let ?obj = "[(str ''type'', Str (str ''ask'')), (str ''question'', Str (str ''Is it real?'')),
               (str ''guess'', Str (str ''Einstein'')), (str ''note'', Bool True)]"
  let ?body = "\<lparr>body_domain = None, body_history = None, body_turns = None,
    body_forceFinal = None, body_hint = None\<rparr>"
  have a: "accepted ?rt (request_history ?body) ?obj"
    by (simp add: loop_eval request_history_def)
  have v: "validated ?rt ?obj = ?obj"
    by (simp add: loop_eval)
  have "retry_loop ?rt (scripted [?obj]) (request_history ?body)
      (Undefined, 0, initial_messages ?rt ?body) = (Inr (Obj ?obj), 1, initial_messages ?rt ?body)"
    using accepted_step [of 0 "scripted [?obj]" "initial_messages ?rt ?body" ?obj ?rt
        "request_history ?body" Undefined] a v
    by (simp add: scripted_def)
  then show ?thesis
    by (simp add: step_unfold str_def)
qed

text \<open>
  C4, amended. Every value returned under status 200 is an object that the inference
  client returned at one of the at most 3 attempts, validated: it has the shape of an ask
  (type \<open>ask\<close>, a question that is not empty and has at most 200 code units) or the shape
  of a guess or final (that type, a guess that is not empty and has at most 120 code
  units, a confidence in \<open>[0, 1]\<close>), never both; every property other than the
  question of an ask, and other than the guess and the confidence of a guess or final, is
  returned as the model gave it.
\<close>

theorem step_200_shape:
  "step rt key cf body = Status200 v \<longrightarrow>
     (\<exists>obj x k ms. v = Obj obj \<and> 1 \<le> k \<and> k \<le> 3 \<and> cf k ms = Inr x \<and> obj = validated rt x \<and>
        ((ask_shape obj \<and> \<not> guess_shape obj \<and>
            (\<forall>p. p \<noteq> str ''question'' \<longrightarrow> get obj p = get x p)) \<or>
         (guess_shape obj \<and> \<not> ask_shape obj \<and>
            (\<forall>p. p \<noteq> str ''guess'' \<and> p \<noteq> str ''confidence'' \<longrightarrow> get obj p = get x p))))"
proof
  assume "step rt key cf body = Status200 v"
  then obtain n ms where
    "retry_loop rt cf (request_history body) (Undefined, 0, initial_messages rt body) = (Inr v, n, ms)"
    using step_200 by blast
  from retry_loop_result [OF this]
  obtain k ms0 x where k: "0 < k" "k \<le> 3" and c: "cf k ms0 = Inr x"
    and d: "duplicate_ask rt (request_history body) x \<or> accepted rt (request_history body) x"
    and v: "v = Obj (validated rt x)"
    by auto
  let ?obj = "validated rt x"
  from validated_shape [OF d]
  have "(ask_shape ?obj \<and> \<not> guess_shape ?obj \<and>
            (\<forall>p. p \<noteq> str ''question'' \<longrightarrow> get ?obj p = get x p)) \<or>
         (guess_shape ?obj \<and> \<not> ask_shape ?obj \<and>
            (\<forall>p. p \<noteq> str ''guess'' \<and> p \<noteq> str ''confidence'' \<longrightarrow> get ?obj p = get x p))"
  proof
    assume "is_ask x \<and> ask_shape ?obj"
    then show ?thesis
      using shapes_exclusive [of ?obj] by (auto simp: validated_other)
  next
    assume g: "is_guess_or_final x \<and> guess_shape ?obj"
    then have "\<not> is_ask x" using ask_not_guess by blast
    with g show ?thesis
      using shapes_exclusive [of ?obj] by (auto simp: validated_other)
  qed
  with k c v show "\<exists>obj x k ms. v = Obj obj \<and> 1 \<le> k \<and> k \<le> 3 \<and> cf k ms = Inr x \<and>
      obj = validated rt x \<and>
        ((ask_shape obj \<and> \<not> guess_shape obj \<and>
            (\<forall>p. p \<noteq> str ''question'' \<longrightarrow> get obj p = get x p)) \<or>
         (guess_shape obj \<and> \<not> ask_shape obj \<and>
            (\<forall>p. p \<noteq> str ''guess'' \<and> p \<noteq> str ''confidence'' \<longrightarrow> get obj p = get x p)))"
    by (intro exI [of _ ?obj] exI [of _ x] exI [of _ k] exI [of _ ms0]) simp
qed

theorem step_200_shape_witness:
  "step example_runtime (Some (str ''key''))
     (scripted [[(str ''type'', Str (str ''guess'')), (str ''guess'', Str (str ''Napoleon'')),
                 (str ''confidence'', Num (Fin (3 / 2))), (str ''note'', Bool True)]])
     \<lparr>body_domain = None, body_history = None, body_turns = None, body_forceFinal = None,
      body_hint = None\<rparr>
   = Status200 (Obj [(str ''type'', Str (str ''guess'')), (str ''guess'', Str (str ''Napoleon'')),
                     (str ''confidence'', Num (Fin 1)), (str ''note'', Bool True)]) \<and>
   guess_shape [(str ''type'', Str (str ''guess'')), (str ''guess'', Str (str ''Napoleon'')),
                (str ''confidence'', Num (Fin 1)), (str ''note'', Bool True)]"
proof -
  let ?rt = example_runtime
  let ?x = "[(str ''type'', Str (str ''guess'')), (str ''guess'', Str (str ''Napoleon'')),
             (str ''confidence'', Num (Fin (3 / 2))), (str ''note'', Bool True)]"
  let ?obj = "[(str ''type'', Str (str ''guess'')), (str ''guess'', Str (str ''Napoleon'')),
               (str ''confidence'', Num (Fin 1)), (str ''note'', Bool True)]"
  let ?cf = "scripted [?x]"
  let ?body = "\<lparr>body_domain = None, body_history = None, body_turns = None,
    body_forceFinal = None, body_hint = None\<rparr>"
  have a: "accepted ?rt (request_history ?body) ?x"
    by (simp add: loop_eval request_history_def)
  have v: "validated ?rt ?x = ?obj"
    by (simp add: loop_eval clamped_def)
  have "retry_loop ?rt ?cf (request_history ?body) (Undefined, 0, initial_messages ?rt ?body) =
      (Inr (Obj ?obj), 1, initial_messages ?rt ?body)"
    using accepted_step [of 0 ?cf "initial_messages ?rt ?body" ?x ?rt "request_history ?body"
        Undefined] a v
    by (simp add: scripted_def)
  then have s: "step ?rt (Some (str ''key'')) ?cf ?body = Status200 (Obj ?obj)"
    by (simp add: step_unfold str_def)
  from step_200_shape [of ?rt "Some (str ''key'')" ?cf ?body "Obj ?obj"] s
  obtain obj where "Obj ?obj = Obj obj" and "ask_shape obj \<or> guess_shape obj"
    by blast
  then have "ask_shape ?obj \<or> guess_shape ?obj" by simp
  moreover have "\<not> ask_shape ?obj"
    by (simp add: ask_shape_def get_def str_def)
  ultimately have "guess_shape ?obj" by blast
  with s show ?thesis ..
qed

section \<open>Validation errors\<close>

lemma error_after_duplicates:
  assumes "length xs < 3"
    and "\<forall>i < length xs. cf (i + 1) (corrected_messages rt msgs (take i xs)) = Inr (xs ! i) \<and>
           duplicate_ask rt hist (xs ! i)"
    and "cf (length xs + 1) (corrected_messages rt msgs xs) = Inr x"
    and "loop_body rt hist x = Inl e"
  shows "retry_loop rt cf hist (Undefined, 0, msgs) =
     (Inl e, length xs + 1, corrected_messages rt msgs xs)"
proof -
  have "retry_loop rt cf hist (Undefined, 0, msgs) =
      retry_loop rt cf hist
        (if xs = [] then Undefined else Obj (validated rt (last xs)), 0 + length xs,
         corrected_messages rt msgs xs)"
    using assms(1,2) by (intro duplicates_run) simp_all
  also have "\<dots> = (Inl e, length xs + 1, corrected_messages rt msgs xs)"
    using assms(1,3,4) by (simp add: error_step)
  finally show ?thesis .
qed

lemma all_results_Inl:
  "all_results (map f xs) = Inl e \<Longrightarrow> \<exists>x \<in> set xs. f x = Inl e"
proof (induction xs)
  case Nil
  then show ?case by simp
next
  case (Cons x xs)
  then show ?case
    by (cases "f x"; cases "all_results (map f xs)") simp_all
qed

lemma String_throws:
  "(String rt v = Inl e \<longrightarrow> e = TypeError (str ''Cannot convert object to primitive value'')) \<and>
   (String_elem rt v = Inl e \<longrightarrow> e = TypeError (str ''Cannot convert object to primitive value''))"
proof (induction v)
  case (Arr xs)
  have "String rt (Arr xs) = Inl e \<longrightarrow>
      e = TypeError (str ''Cannot convert object to primitive value'')"
  proof
    assume "String rt (Arr xs) = Inl e"
    then have "all_results (map (String_elem rt) xs) = Inl e"
      by (simp split: sum.splits)
    then obtain x where "x \<in> set xs" "String_elem rt x = Inl e"
      using all_results_Inl by blast
    with Arr show "e = TypeError (str ''Cannot convert object to primitive value'')"
      by blast
  qed
  then show ?case by simp
next
  case (Num n)
  then show ?case by (cases n) simp_all
qed (auto split: if_splits)

lemma question_text_throws:
  "question_text rt obj = Inl e \<Longrightarrow>
   e = TypeError (str ''Cannot convert object to primitive value'')"
  using String_throws by (simp add: question_text_def)

lemma guess_text_throws:
  "guess_text rt obj = Inl e \<Longrightarrow>
   e = TypeError (str ''Cannot convert object to primitive value'')"
  using String_throws by (simp add: guess_text_def)

lemma ask_validation:
  assumes "is_ask obj"
  shows "(loop_body rt hist obj = Inl (Error (str ''Missing question'')) \<longleftrightarrow>
         (\<exists>s. question_text rt obj = Inr s \<and> take 200 s = [])) \<and>
      (\<forall>s. question_text rt obj = Inr s \<and> take 200 s \<noteq> [] \<longrightarrow>
         (\<exists>r. loop_body rt hist obj = Inr r \<and>
              get (result_object r) (str ''question'') = Str (take 200 s))) \<and>
      (\<forall>e. question_text rt obj = Inl e \<longrightarrow>
         loop_body rt hist obj = Inl e \<and>
         e = TypeError (str ''Cannot convert object to primitive value'')) \<and>
      (\<forall>s. get obj (str ''question'') = Str s \<longrightarrow> question_text rt obj = Inr s)"
proof (cases "question_text rt obj")
  case (Inl e)
  then have "loop_body rt hist obj = Inl e"
    using assms by (simp add: loop_body_ask_throws)
  moreover have "e = TypeError (str ''Cannot convert object to primitive value'')"
    using Inl by (rule question_text_throws)
  ultimately show ?thesis
    using Inl by (auto simp: question_text_Str)
next
  case (Inr s)
  then have t: "truncated_question rt obj = take 200 s"
    by (rule truncated_question_Inr)
  show ?thesis
    using assms Inr t
    by (auto simp: loop_body_ask [OF assms Inr] validated_question question_text_Str)
qed

lemma guess_validation:
  assumes "is_guess_or_final obj"
  shows "(loop_body rt hist obj = Inl (Error (str ''Missing guess'')) \<longleftrightarrow>
         (\<exists>s. guess_text rt obj = Inr s \<and> take 120 s = [])) \<and>
      (\<forall>s. guess_text rt obj = Inr s \<and> take 120 s \<noteq> [] \<longrightarrow>
         (\<exists>r. loop_body rt hist obj = Inr r \<and>
              get (result_object r) (str ''guess'') = Str (take 120 s))) \<and>
      (\<forall>e. guess_text rt obj = Inl e \<longrightarrow>
         loop_body rt hist obj = Inl e \<and>
         e = TypeError (str ''Cannot convert object to primitive value'')) \<and>
      (\<forall>s. get obj (str ''guess'') = Str s \<longrightarrow> guess_text rt obj = Inr s)"
proof (cases "guess_text rt obj")
  case (Inl e)
  then have "loop_body rt hist obj = Inl e"
    using assms by (simp add: loop_body_guess_throws)
  moreover have "e = TypeError (str ''Cannot convert object to primitive value'')"
    using Inl by (rule guess_text_throws)
  ultimately show ?thesis
    using Inl by (auto simp: guess_text_Str)
next
  case (Inr s)
  then have t: "truncated_guess rt obj = take 120 s"
    by (rule truncated_guess_Inr)
  show ?thesis
    using assms Inr t
    by (auto simp: loop_body_guess [OF assms Inr] validated_guess guess_text_Str)
qed

text \<open>
  C6. The validation of one action. For an ask, the question is converted to a string
  (\<open>String(obj.question || '')\<close>: the text itself when the question is a string) and cut to
  its first 200 characters (UTF-16 code units, as \<open>slice\<close> counts them); the attempt throws
  \<open>Missing question\<close> exactly when that is empty, and otherwise the object carries it. For
  a guess or a final, the same with the guess, 120 characters and \<open>Missing guess\<close>. Any
  other type throws \<open>Invalid type\<close>. The one value with no string is an object, or an array
  holding an object, with a property \<open>toString\<close> of its own: there the conversion throws
  its \<open>TypeError\<close>, which leaves the attempt in place of the truncation. Every such
  exception, at the first attempt or behind duplicate asks, ends the request with status
  500 and its message.
\<close>

theorem validation_errors:
  "(is_ask obj \<longrightarrow>
      (loop_body rt hist obj = Inl (Error (str ''Missing question'')) \<longleftrightarrow>
         (\<exists>s. question_text rt obj = Inr s \<and> take 200 s = [])) \<and>
      (\<forall>s. question_text rt obj = Inr s \<and> take 200 s \<noteq> [] \<longrightarrow>
         (\<exists>r. loop_body rt hist obj = Inr r \<and>
              get (result_object r) (str ''question'') = Str (take 200 s))) \<and>
      (\<forall>e. question_text rt obj = Inl e \<longrightarrow>
         loop_body rt hist obj = Inl e \<and>
         e = TypeError (str ''Cannot convert object to primitive value'')) \<and>
      (\<forall>s. get obj (str ''question'') = Str s \<longrightarrow> question_text rt obj = Inr s)) \<and>
   (is_guess_or_final obj \<longrightarrow>
      (loop_body rt hist obj = Inl (Error (str ''Missing guess'')) \<longleftrightarrow>
         (\<exists>s. guess_text rt obj = Inr s \<and> take 120 s = [])) \<and>
      (\<forall>s. guess_text rt obj = Inr s \<and> take 120 s \<noteq> [] \<longrightarrow>
         (\<exists>r. loop_body rt hist obj = Inr r \<and>
              get (result_object r) (str ''guess'') = Str (take 120 s))) \<and>
      (\<forall>e. guess_text rt obj = Inl e \<longrightarrow>
         loop_body rt hist obj = Inl e \<and>
         e = TypeError (str ''Cannot convert object to primitive value'')) \<and>
      (\<forall>s. get obj (str ''guess'') = Str s \<longrightarrow> guess_text rt obj = Inr s)) \<and>
   (\<not> is_ask obj \<and> \<not> is_guess_or_final obj \<longrightarrow>
      loop_body rt hist obj = Inl (Error (str ''Invalid type''))) \<and>
   (key \<noteq> None \<and> key \<noteq> Some [] \<and> hist = request_history body \<and> length xs < 3 \<and>
    (\<forall>i < length xs.
        cf (i + 1) (corrected_messages rt (initial_messages rt body) (take i xs)) = Inr (xs ! i) \<and>
        duplicate_ask rt hist (xs ! i)) \<and>
    cf (length xs + 1) (corrected_messages rt (initial_messages rt body) xs) = Inr obj \<and>
    loop_body rt hist obj = Inl err \<longrightarrow>
      step rt key cf body =
        Status500 (if message err \<noteq> [] then message err else str ''Server error''))"
proof -
  note k = ask_validation [of obj rt hist]
  note g = guess_validation [of obj rt hist]
  have i: "\<not> is_ask obj \<and> \<not> is_guess_or_final obj \<longrightarrow>
      loop_body rt hist obj = Inl (Error (str ''Invalid type''))"
    by (simp add: loop_body_other)
  have s: "key \<noteq> None \<and> key \<noteq> Some [] \<and> hist = request_history body \<and> length xs < 3 \<and>
    (\<forall>i < length xs.
        cf (i + 1) (corrected_messages rt (initial_messages rt body) (take i xs)) = Inr (xs ! i) \<and>
        duplicate_ask rt hist (xs ! i)) \<and>
    cf (length xs + 1) (corrected_messages rt (initial_messages rt body) xs) = Inr obj \<and>
    loop_body rt hist obj = Inl err \<longrightarrow>
      step rt key cf body =
        Status500 (if message err \<noteq> [] then message err else str ''Server error'')"
  proof (intro impI, elim conjE)
    assume key: "key \<noteq> None" "key \<noteq> Some []" and h: "hist = request_history body"
      and l: "length xs < 3"
      and d: "\<forall>i < length xs.
        cf (i + 1) (corrected_messages rt (initial_messages rt body) (take i xs)) = Inr (xs ! i) \<and>
        duplicate_ask rt hist (xs ! i)"
      and c: "cf (length xs + 1) (corrected_messages rt (initial_messages rt body) xs) = Inr obj"
      and e: "loop_body rt hist obj = Inl err"
    have "retry_loop rt cf hist (Undefined, 0, initial_messages rt body) =
        (Inl err, length xs + 1, corrected_messages rt (initial_messages rt body) xs)"
      using l d c e by (rule error_after_duplicates)
    then have "fst (retry_loop rt cf (request_history body)
        (Undefined, 0, initial_messages rt body)) = Inl err"
      using h by simp
    then show "step rt key cf body =
        Status500 (if message err \<noteq> [] then message err else str ''Server error'')"
      using key unfolding step_unfold by auto
  qed
  from k g i s show ?thesis by blast
qed

theorem validation_errors_witness:
  "loop_body example_runtime []
     [(str ''type'', Str (str ''ask'')), (str ''question'', Str [])]
     = Inl (Error (str ''Missing question'')) \<and>
   (\<exists>r. loop_body example_runtime []
     [(str ''type'', Str (str ''ask'')), (str ''question'', Str (replicate 250 120))] = Inr r \<and>
     get (result_object r) (str ''question'') = Str (replicate 200 120)) \<and>
   loop_body example_runtime [] [(str ''type'', Str (str ''guess''))]
     = Inl (Error (str ''Missing guess'')) \<and>
   loop_body example_runtime [] [(str ''type'', Str (str ''hint''))]
     = Inl (Error (str ''Invalid type'')) \<and>
   loop_body example_runtime []
     [(str ''type'', Str (str ''ask'')),
      (str ''question'', Obj [(str ''toString'', Num (Fin 1))])]
     = Inl (TypeError (str ''Cannot convert object to primitive value'')) \<and>
   step example_runtime (Some (str ''key''))
     (scripted [[(str ''type'', Str (str ''ask'')), (str ''question'', Str [])]])
     \<lparr>body_domain = None, body_history = None, body_turns = None, body_forceFinal = None,
      body_hint = None\<rparr>
     = Status500 (str ''Missing question'') \<and>
   step example_runtime (Some (str ''key''))
     (scripted [[(str ''type'', Str (str ''ask'')),
                 (str ''question'', Obj [(str ''toString'', Num (Fin 1))])]])
     \<lparr>body_domain = None, body_history = None, body_turns = None, body_forceFinal = None,
      body_hint = None\<rparr>
     = Status500 (str ''Cannot convert object to primitive value'')"
proof -
  let ?rt = example_runtime
  let ?empty = "[(str ''type'', Str (str ''ask'')), (str ''question'', Str [])]"
  let ?long = "[(str ''type'', Str (str ''ask'')), (str ''question'', Str (replicate 250 120))]"
  let ?guess = "[(str ''type'', Str (str ''guess''))]"
  let ?other = "[(str ''type'', Str (str ''hint''))]"
  let ?odd = "[(str ''type'', Str (str ''ask'')),
               (str ''question'', Obj [(str ''toString'', Num (Fin 1))])]"
  let ?te = "TypeError (str ''Cannot convert object to primitive value'')"
  let ?body = "\<lparr>body_domain = None, body_history = None, body_turns = None,
    body_forceFinal = None, body_hint = None\<rparr>"
  have e1: "is_ask ?empty" "question_text ?rt ?empty = Inr []"
    by (simp_all add: object_eval)
  have l1: "is_ask ?long" "question_text ?rt ?long = Inr (replicate 250 120)"
    "take 200 (replicate 250 120 :: jsstring) = replicate 200 120"
    "replicate 200 (120 :: nat) \<noteq> []"
    by (simp_all add: object_eval)
  have g1: "is_guess_or_final ?guess" "guess_text ?rt ?guess = Inr []"
    by (simp_all add: object_eval)
  have o1: "\<not> is_ask ?other" "\<not> is_guess_or_final ?other"
    by (simp_all add: object_eval)
  have d1: "is_ask ?odd" "question_text ?rt ?odd = Inl ?te"
    by (simp_all add: object_eval)
  have m: "message (Error (str ''Missing question'')) = str ''Missing question''"
    "str ''Missing question'' \<noteq> []"
    "message ?te = str ''Cannot convert object to primitive value''"
    "str ''Cannot convert object to primitive value'' \<noteq> []"
    by (simp_all add: str_def)
  have pre: "Some (str ''key'') \<noteq> None \<and> Some (str ''key'') \<noteq> Some [] \<and>
      [] = request_history ?body \<and> length ([] :: jsobject list) < 3 \<and>
      (\<forall>i < length ([] :: jsobject list).
        scripted [x] (i + 1) (corrected_messages ?rt (initial_messages ?rt ?body) (take i []))
          = Inr ([] ! i) \<and>
        duplicate_ask ?rt [] ([] ! i)) \<and>
      scripted [x] (length ([] :: jsobject list) + 1)
        (corrected_messages ?rt (initial_messages ?rt ?body) []) = Inr x" for x
    by (simp add: str_def request_history_def scripted_def)
  note t1 = validation_errors [where obj = ?empty and rt = ?rt and hist = "[]"
    and key = "Some (str ''key'')" and body = ?body and xs = "[]" and cf = "scripted [?empty]"
    and err = "Error (str ''Missing question'')"]
  from t1 e1 have 1: "loop_body ?rt [] ?empty = Inl (Error (str ''Missing question''))"
    by (metis take_Nil)
  from t1 pre [of ?empty] 1
  have "step ?rt (Some (str ''key'')) (scripted [?empty]) ?body =
      Status500 (if message (Error (str ''Missing question'')) \<noteq> []
        then message (Error (str ''Missing question'')) else str ''Server error'')"
    by blast
  then have 6: "step ?rt (Some (str ''key'')) (scripted [?empty]) ?body =
      Status500 (str ''Missing question'')"
    using m by simp
  note t2 = validation_errors [where obj = ?long and rt = ?rt and hist = "[]"]
  from t2 l1 have 2: "\<exists>r. loop_body ?rt [] ?long = Inr r \<and>
      get (result_object r) (str ''question'') = Str (replicate 200 120)"
    by metis
  note t3 = validation_errors [where obj = ?guess and rt = ?rt and hist = "[]"]
  from t3 g1 have 3: "loop_body ?rt [] ?guess = Inl (Error (str ''Missing guess''))"
    by (metis take_Nil)
  note t4 = validation_errors [where obj = ?other and rt = ?rt and hist = "[]"]
  from t4 o1 have 4: "loop_body ?rt [] ?other = Inl (Error (str ''Invalid type''))"
    by blast
  note t5 = validation_errors [where obj = ?odd and rt = ?rt and hist = "[]"
    and key = "Some (str ''key'')" and body = ?body and xs = "[]" and cf = "scripted [?odd]"
    and err = ?te]
  from t5 d1 have 5: "loop_body ?rt [] ?odd = Inl ?te"
    by blast
  from t5 pre [of ?odd] 5
  have "step ?rt (Some (str ''key'')) (scripted [?odd]) ?body =
      Status500 (if message ?te \<noteq> [] then message ?te else str ''Server error'')"
    by blast
  then have 7: "step ?rt (Some (str ''key'')) (scripted [?odd]) ?body =
      Status500 (str ''Cannot convert object to primitive value'')"
    using m by simp
  from 1 2 3 4 5 6 7 show ?thesis by blast
qed

section \<open>The response interpreter\<close>

lemma indexOf_eq:
  "indexOf s c = (if c \<in> set s then int (length (takeWhile (\<lambda>x. x \<noteq> c) s)) else - 1)"
  by (induction s) (auto simp: Let_def)

lemma lastIndexOf_eq:
  "lastIndexOf s c =
     (if c \<in> set s then int (length s) - 1 - int (length (takeWhile (\<lambda>x. x \<noteq> c) (rev s)))
      else - 1)"
  by (simp add: lastIndexOf_def indexOf_eq Let_def)

lemma length_takeWhile_less: "c \<in> set s \<Longrightarrow> length (takeWhile (\<lambda>x. x \<noteq> c) s) < length s"
  by (induction s) auto

lemma rev_dropWhile_rev:
  "rev (dropWhile P (rev u)) = take (length u - length (takeWhile P (rev u))) u"
proof -
  have "rev u = takeWhile P (rev u) @ dropWhile P (rev u)" by simp
  then have "u = rev (dropWhile P (rev u)) @ rev (takeWhile P (rev u))"
    by (metis rev_append rev_rev_ident)
  then have "take (length (rev (dropWhile P (rev u)))) u = rev (dropWhile P (rev u))"
    by (metis append_eq_conv_conj)
  moreover have "length (rev (dropWhile P (rev u))) = length u - length (takeWhile P (rev u))"
    by (metis length_rev length_append add_diff_cancel_left' takeWhile_dropWhile_id)
  ultimately show ?thesis by simp
qed

lemma slice_braces:
  assumes o: "123 \<in> set t" and c: "125 \<in> set t"
  shows "slice t (indexOf t 123) (lastIndexOf t 125 + 1) =
     rev (dropWhile (\<lambda>c. c \<noteq> 125) (rev (dropWhile (\<lambda>c. c \<noteq> 123) t)))"
proof -
  let ?P = "\<lambda>x. x \<noteq> (125::nat)"
  let ?i = "length (takeWhile (\<lambda>x. x \<noteq> 123) t)"
  let ?w = "length (takeWhile ?P (rev t))"
  let ?u = "drop ?i t"
  have i: "?i < length t" using o by (rule length_takeWhile_less)
  have w: "?w < length t"
    using c length_takeWhile_less [of 125 "rev t"] by simp
  have u: "dropWhile (\<lambda>c. c \<noteq> 123) t = ?u"
    by (simp add: dropWhile_eq_drop)
  have sl: "slice t (indexOf t 123) (lastIndexOf t 125 + 1) = take (length t - ?w - ?i) ?u"
  proof -
    have "nat (int (length t) - int ?w - int ?i) = length t - ?w - ?i"
      by linarith
    then show ?thesis
      using o c i w by (simp add: slice_def indexOf_eq lastIndexOf_eq Let_def min_def)
  qed
  have rt: "rev t = rev ?u @ rev (take ?i t)"
    by (metis append_take_drop_id rev_append)
  show ?thesis
  proof (cases "125 \<in> set ?u")
    case True
    then have "\<exists>x \<in> set (rev ?u). \<not> ?P x" by simp
    then have "takeWhile ?P (rev ?u @ rev (take ?i t)) = takeWhile ?P (rev ?u)"
      by (simp add: takeWhile_append1)
    then have "?w = length (takeWhile ?P (rev ?u))"
      using rt by simp
    moreover have "length ?u = length t - ?i" by simp
    ultimately have "length t - ?w - ?i = length ?u - length (takeWhile ?P (rev ?u))"
      by linarith
    then show ?thesis
      unfolding sl u by (simp only: rev_dropWhile_rev)
  next
    case False
    then have all: "\<forall>x \<in> set (rev ?u). ?P x" by auto
    then have "takeWhile ?P (rev ?u @ rev (take ?i t)) = rev ?u @ takeWhile ?P (rev (take ?i t))"
      by (intro takeWhile_append2) blast
    then have "length ?u \<le> ?w"
      using rt by (metis length_append length_rev le_add1)
    then have z: "length t - ?w - ?i = 0" by simp
    from all have "dropWhile ?P (rev ?u) = []" by simp
    then show ?thesis
      unfolding sl u z by simp
  qed
qed

lemma candidate_eq:
  "indexOf t 123 = - 1 \<or> lastIndexOf t 125 = - 1 \<longleftrightarrow> brace_span t = None"
  "brace_span t = Some s \<Longrightarrow> slice t (indexOf t 123) (lastIndexOf t 125 + 1) = s"
proof -
  have i: "indexOf t 123 = - 1 \<longleftrightarrow> 123 \<notin> set t"
    by (simp add: indexOf_eq)
  have l: "lastIndexOf t 125 = - 1 \<longleftrightarrow> 125 \<notin> set t"
  proof (cases "125 \<in> set t")
    case True
    then have "length (takeWhile (\<lambda>x. x \<noteq> 125) (rev t)) < length t"
      using length_takeWhile_less [of 125 "rev t"] by simp
    with True show ?thesis by (simp add: lastIndexOf_eq)
  qed (simp add: lastIndexOf_eq)
  show "indexOf t 123 = - 1 \<or> lastIndexOf t 125 = - 1 \<longleftrightarrow> brace_span t = None"
    by (auto simp: i l brace_span_def)
  show "brace_span t = Some s \<Longrightarrow> slice t (indexOf t 123) (lastIndexOf t 125 + 1) = s"
    by (auto simp: brace_span_def slice_braces split: if_splits)
qed

lemma starts_fence: "startsWith s [96, 96, 96] \<longleftrightarrow> (\<exists>r. s = 96 # 96 # 96 # r)"
  by (auto simp: startsWith_iff)

lemma fence_json_Cons:
  "replace_all re_fence_json (c # cs) =
     (if startsWith (c # cs) [96, 96, 96]
      then replace_all re_fence_json
             (drop (if startsWith_ci (drop 3 (c # cs)) (str ''json'') then 6 else 2) cs)
      else c # replace_all re_fence_json cs)"
  by (simp add: replace_all.simps re_fence_json_def)

lemma fence_json_head:
  assumes "\<not> startsWith (c # cs) [96, 96, 96]"
  shows "\<not> startsWith (c # replace_all re_fence_json cs) [96, 96, 96]"
proof
  assume "startsWith (c # replace_all re_fence_json cs) [96, 96, 96]"
  then obtain r where c: "c = 96" and r: "replace_all re_fence_json cs = 96 # 96 # r"
    by (auto simp: starts_fence)
  show False
  proof (cases cs)
    case Nil
    with r show False by simp
  next
    case (Cons x xs)
    have nx: "\<not> startsWith (x # xs) [96, 96, 96]"
      using assms c Cons by (auto simp: starts_fence)
    then have rx: "replace_all re_fence_json cs = x # replace_all re_fence_json xs"
      using Cons by (simp add: fence_json_Cons)
    with r have x: "x = 96" and r2: "replace_all re_fence_json xs = 96 # r" by simp_all
    show False
    proof (cases xs)
      case Nil
      with r2 show False by simp
    next
      case (Cons y ys)
      from assms c x \<open>cs = x # xs\<close> Cons have y: "y \<noteq> 96"
        by (auto simp: starts_fence)
      then have "\<not> startsWith (y # ys) [96, 96, 96]"
        by (auto simp: starts_fence)
      then have "replace_all re_fence_json xs = y # replace_all re_fence_json ys"
        using Cons by (simp add: fence_json_Cons)
      with r2 y show False by simp
    qed
  qed
qed

lemma fence_free_Cons:
  "fence_free (c # s) \<longleftrightarrow> \<not> startsWith (c # s) [96, 96, 96] \<and> fence_free s"
proof
  assume f: "fence_free (c # s)"
  have "\<not> startsWith (drop 0 (c # s)) [96, 96, 96]"
    using f unfolding fence_free_def by blast
  moreover have "\<not> startsWith (drop i s) [96, 96, 96]" for i
    using f [unfolded fence_free_def, rule_format, of "Suc i"] by simp
  ultimately show "\<not> startsWith (c # s) [96, 96, 96] \<and> fence_free s"
    by (simp add: fence_free_def)
next
  assume a: "\<not> startsWith (c # s) [96, 96, 96] \<and> fence_free s"
  show "fence_free (c # s)"
    unfolding fence_free_def
  proof
    fix i
    show "\<not> startsWith (drop i (c # s)) [96, 96, 96]"
      using a by (cases i) (simp_all add: fence_free_def)
  qed
qed

lemma fence_free_Nil: "fence_free []"
  by (simp add: fence_free_def startsWith_def)

lemma fence_free_json: "fence_free (replace_all re_fence_json s)"
proof (induction "length s" arbitrary: s rule: less_induct)
  case less
  show ?case
  proof (cases s)
    case Nil
    then show ?thesis by (simp add: fence_free_Nil)
  next
    case (Cons c cs)
    show ?thesis
    proof (cases "startsWith (c # cs) [96, 96, 96]")
      case True
      let ?k = "if startsWith_ci (drop 3 (c # cs)) (str ''json'') then 6 else 2"
      have "length (drop ?k cs) < length s" using Cons by simp
      then have "fence_free (replace_all re_fence_json (drop ?k cs))"
        by (rule less.hyps)
      with True Cons show ?thesis by (simp only: fence_json_Cons if_True)
    next
      case False
      have "fence_free (replace_all re_fence_json cs)"
        using less.hyps [of cs] Cons by simp
      with False Cons show ?thesis
        by (simp add: fence_json_Cons fence_free_Cons fence_json_head)
    qed
  qed
qed

lemma fence_noop: "fence_free s \<Longrightarrow> replace_all re_fence s = s"
  by (induction s) (simp_all add: fence_free_Cons replace_all.simps re_fence_def)

lemma fences_once:
  "replace_all re_fence (replace_all re_fence_json t) = replace_all re_fence_json t"
  by (simp add: fence_noop fence_free_json)

subsection \<open>Words in any case\<close>

lemma ci_unit: "upper_ascii x = upper_ascii y \<longleftrightarrow> lower_ascii x = lower_ascii y"
  by (auto simp: upper_ascii_def lower_ascii_def)

lemma ci_map:
  "map upper_ascii xs = map upper_ascii ys \<longleftrightarrow> map lower_ascii xs = map lower_ascii ys"
proof (induction xs arbitrary: ys)
  case Nil
  then show ?case by auto
next
  case (Cons x xs)
  then show ?case by (cases ys) (auto simp: ci_unit)
qed

lemma startsWith_ci_spelled:
  "map lower_ascii p = p \<Longrightarrow> startsWith_ci s p \<longleftrightarrow> spelled (take (length p) s) p"
  by (simp add: startsWith_ci_def spelled_def ci_map)

lemma lower_words:
  "map lower_ascii (str ''<think>'') = str ''<think>''"
  "map lower_ascii (str ''</think>'') = str ''</think>''"
  "map lower_ascii (str ''json'') = str ''json''"
  by (simp_all add: str_def lower_ascii_def)

lemma word_lengths:
  "length (str ''<think>'') = 7" "length (str ''</think>'') = 8" "length (str ''json'') = 4"
  by (simp_all add: str_def)

lemma spelled_length: "spelled s w \<Longrightarrow> length s = length w"
  by (auto simp: spelled_def)

lemma opens_iff: "startsWith_ci s (str ''<think>'') \<longleftrightarrow> spelled (take 7 s) (str ''<think>'')"
  using startsWith_ci_spelled [OF lower_words(1), of s] by (simp add: word_lengths)

lemma closes_iff: "startsWith_ci s (str ''</think>'') \<longleftrightarrow> spelled (take 8 s) (str ''</think>'')"
  using startsWith_ci_spelled [OF lower_words(2), of s] by (simp add: word_lengths)

lemma tag_iff: "startsWith_ci s (str ''json'') \<longleftrightarrow> spelled (take 4 s) (str ''json'')"
  using startsWith_ci_spelled [OF lower_words(3), of s] by (simp add: word_lengths)

subsection \<open>Chain-of-thought blocks\<close>

lemma first_match_Some:
  "first_match P xs = Some j \<longleftrightarrow> j \<le> length xs \<and> P (drop j xs) \<and> (\<forall>i<j. \<not> P (drop i xs))"
proof (induction xs arbitrary: j)
  case Nil
  then show ?case by auto
next
  case (Cons c cs)
  show ?case
  proof (cases "P (c # cs)")
    case True
    then show ?thesis
      by (cases j) auto
  next
    case False
    show ?thesis
    proof (cases j)
      case 0
      with False show ?thesis by simp
    next
      case (Suc k)
      have "(\<forall>i<Suc k. \<not> P (drop i (c # cs))) \<longleftrightarrow> (\<forall>i<k. \<not> P (drop i cs))"
        using False by (auto simp: less_Suc_eq_0_disj)
      with False Suc Cons.IH [of k] show ?thesis
        by auto
    qed
  qed
qed

lemma first_match_None:
  "first_match P xs = None \<longleftrightarrow> (\<forall>i \<le> length xs. \<not> P (drop i xs))"
proof (induction xs)
  case Nil
  then show ?case by auto
next
  case (Cons c cs)
  have "(\<forall>i \<le> length (c # cs). \<not> P (drop i (c # cs))) \<longleftrightarrow>
      \<not> P (c # cs) \<and> (\<forall>i \<le> length cs. \<not> P (drop i cs))"
  proof
    assume a: "\<forall>i \<le> length (c # cs). \<not> P (drop i (c # cs))"
    have "\<not> P (drop 0 (c # cs))" using a by blast
    moreover have "\<not> P (drop i cs)" if "i \<le> length cs" for i
      using a [rule_format, of "Suc i"] that by simp
    ultimately show "\<not> P (c # cs) \<and> (\<forall>i \<le> length cs. \<not> P (drop i cs))" by simp
  next
    assume a: "\<not> P (c # cs) \<and> (\<forall>i \<le> length cs. \<not> P (drop i cs))"
    show "\<forall>i \<le> length (c # cs). \<not> P (drop i (c # cs))"
    proof (intro allI impI)
      fix i
      assume "i \<le> length (c # cs)"
      with a show "\<not> P (drop i (c # cs))" by (cases i) simp_all
    qed
  qed
  with Cons show ?case by simp
qed

lemma find_upt_Some:
  "find Q [0..<m] = Some n \<longleftrightarrow> n < m \<and> Q n \<and> (\<forall>i<n. \<not> Q i)"
proof
  assume "find Q [0..<m] = Some n"
  then obtain i where i: "i < length [0..<m]" "Q ([0..<m] ! i)" "n = [0..<m] ! i"
    "\<forall>j<i. \<not> Q ([0..<m] ! j)"
    unfolding find_Some_iff by blast
  from i(1) have im: "i < m" by simp
  then have "[0..<m] ! i = i" by simp
  moreover have "\<not> Q j" if "j < i" for j
  proof -
    from that im have "[0..<m] ! j = j" by simp
    with i(4) that show ?thesis by metis
  qed
  ultimately show "n < m \<and> Q n \<and> (\<forall>i<n. \<not> Q i)"
    using i im by simp
next
  assume a: "n < m \<and> Q n \<and> (\<forall>i<n. \<not> Q i)"
  then have "n < length [0..<m] \<and> Q ([0..<m] ! n) \<and> n = [0..<m] ! n \<and>
      (\<forall>j<n. \<not> Q ([0..<m] ! j))"
    by simp
  then show "find Q [0..<m] = Some n"
    unfolding find_Some_iff by blast
qed

lemma find_upt_None: "find Q [0..<m] = None \<longleftrightarrow> (\<forall>n<m. \<not> Q n)"
  by (auto simp: find_None_iff)

lemma block_prefix:
  assumes "n \<le> length s"
  shows "is_block (take n s) \<longleftrightarrow>
     15 \<le> n \<and> startsWith_ci s (str ''<think>'') \<and>
     startsWith_ci (drop (n - 15) (drop 7 s)) (str ''</think>'')"
proof (cases "15 \<le> n")
  case False
  with assms show ?thesis by (simp add: is_block_def)
next
  case True
  have l: "length (take n s) = n" using assms by simp
  have o: "take 7 (take n s) = take 7 s" using True by (simp add: min_def)
  have "drop (n - 8) (take n s) = take (n - (n - 8)) (drop (n - 8) s)"
    by (simp add: drop_take)
  moreover have "n - (n - 8) = 8" using True by simp
  moreover have "drop (n - 15) (drop 7 s) = drop (n - 8) s" using True by simp
  ultimately have c: "drop (n - 8) (take n s) = take 8 (drop (n - 15) (drop 7 s))"
    by simp
  show ?thesis
    using True assms unfolding is_block_def l o c opens_iff closes_iff by simp
qed

lemma closes_length: "startsWith_ci r (str ''</think>'') \<Longrightarrow> 8 \<le> length r"
proof -
  assume "startsWith_ci r (str ''</think>'')"
  then have "length (take 8 r) = 8"
    using spelled_length [of "take 8 r" "str ''</think>''"] by (simp add: closes_iff word_lengths)
  then show ?thesis by simp
qed

lemma head_block_eq:
  "head_block s =
     (if startsWith_ci s (str ''<think>'') then
        map_option (\<lambda>j. j + 15) (first_match (\<lambda>r. startsWith_ci r (str ''</think>'')) (drop 7 s))
      else None)"
proof -
  let ?P = "\<lambda>r. startsWith_ci r (str ''</think>'')"
  let ?Q = "\<lambda>n. is_block (take n s)"
  let ?xs = "drop 7 s"
  show ?thesis
  proof (cases "startsWith_ci s (str ''<think>'')")
    case False
    then have "\<forall>n < length s + 1. \<not> ?Q n"
      by (simp add: block_prefix)
    then have "head_block s = None"
      unfolding head_block_def find_upt_None .
    then show ?thesis
      using False by simp
  next
    case True
    show ?thesis
    proof (cases "first_match ?P ?xs")
      case None
      then have no: "\<forall>i \<le> length ?xs. \<not> ?P (drop i ?xs)"
        by (simp add: first_match_None)
      have "\<not> ?Q n" if "n < length s + 1" for n
      proof
        assume q: "?Q n"
        from that have n: "n \<le> length s" by simp
        from q have "15 \<le> n" "?P (drop (n - 15) ?xs)"
          using block_prefix [OF n] by blast+
        moreover from this n have "n - 15 \<le> length ?xs" by simp
        ultimately show False using no by blast
      qed
      then have "head_block s = None"
        unfolding head_block_def find_upt_None by blast
      then show ?thesis
        using True None by simp
    next
      case (Some j)
      then have j: "j \<le> length ?xs" "?P (drop j ?xs)" "\<forall>i<j. \<not> ?P (drop i ?xs)"
        by (simp_all add: first_match_Some)
      from j(2) have "8 \<le> length (drop j ?xs)" by (rule closes_length)
      then have len: "j + 15 \<le> length s" by simp
      have "j + 15 - 15 = j" by simp
      then have q: "?Q (j + 15)"
        using block_prefix [OF len] True j(2) by (simp del: drop_drop)
      have "\<not> ?Q i" if "i < j + 15" for i
      proof
        assume qi: "?Q i"
        from that len have "i \<le> length s" by simp
        from block_prefix [OF this] qi have "15 \<le> i" "?P (drop (i - 15) ?xs)"
          by blast+
        moreover from this that have "i - 15 < j" by simp
        ultimately show False using j(3) by blast
      qed
      with q len have "head_block s = Some (j + 15)"
        unfolding head_block_def find_upt_Some by simp
      then show ?thesis
        using True Some by simp
    qed
  qed
qed

lemma think_Cons:
  "replace_all re_think (c # cs) =
     (case head_block (c # cs) of
        None \<Rightarrow> c # replace_all re_think cs
      | Some n \<Rightarrow> replace_all re_think (drop n (c # cs)))"
proof (cases "re_think (c # cs)")
  case None
  then have "head_block (c # cs) = None"
    by (auto simp: re_think_def head_block_eq split: if_splits option.splits)
  with None show ?thesis
    by (simp add: replace_all.simps)
next
  case (Some m)
  then obtain j where j: "startsWith_ci (c # cs) (str ''<think>'')"
    "first_match (\<lambda>r. startsWith_ci r (str ''</think>'')) (drop 7 (c # cs)) = Some j"
    "m = ([], j + 14)"
    by (auto simp: re_think_def split: if_splits option.splits)
  then have "head_block (c # cs) = Some (j + 15)"
    by (simp add: head_block_eq)
  moreover have "drop (j + 15) (c # cs) = drop (j + 14) cs"
  proof -
    have "j + 15 = Suc (j + 14)" by simp
    then show ?thesis by (simp only: drop_Suc_Cons)
  qed
  ultimately show ?thesis
    using Some j(3) by (simp add: replace_all.simps)
qed

lemma strip_blocks_eq: "replace_all re_think t = strip_blocks t"
proof (induction t rule: strip_blocks.induct)
  case 1
  then show ?case by simp
next
  case (2 c cs)
  then show ?case
    by (cases "head_block (c # cs)") (simp_all add: think_Cons)
qed

subsection \<open>Fence markers\<close>

lemma head_fence_eq:
  "head_fence s =
     (if startsWith s [96, 96, 96]
      then (if startsWith_ci (drop 3 s) (str ''json'') then Some 7 else Some 3)
      else None)"
proof -
  have t: "startsWith_ci (drop 3 s) (str ''json'') \<longleftrightarrow>
      7 \<le> length s \<and> spelled (drop 3 (take 7 s)) (str ''json'')"
  proof -
    have d: "drop 3 (take 7 s) = take 4 (drop 3 s)"
      by (simp add: drop_take)
    have "spelled (take 4 (drop 3 s)) (str ''json'') \<Longrightarrow> 7 \<le> length s"
      using spelled_length [of "take 4 (drop 3 s)" "str ''json''"] by (simp add: word_lengths)
    then show ?thesis
      unfolding d tag_iff by blast
  qed
  have n: "\<not> spelled [] (str ''json'')"
    by (simp add: spelled_def str_def)
  have l3: "length [96 :: nat, 96, 96] = 3" by simp
  have three: "3 \<le> length s \<and> take 3 s = [96, 96, 96] \<longleftrightarrow> startsWith s [96, 96, 96]"
  proof -
    have "3 \<le> length s" if "take 3 s = [96, 96, 96]"
    proof -
      from that have "length (take 3 s) = 3" by (simp only: l3)
      then show ?thesis by simp
    qed
    then show ?thesis
      unfolding startsWith_def l3 by blast
  qed
  have seven: "take 7 s \<noteq> [96, 96, 96]" if "7 \<le> length s"
  proof
    assume "take 7 s = [96, 96, 96]"
    then have "length (take 7 s) = 3" by (simp only: l3)
    with that show False by simp
  qed
  have m7: "7 \<le> length s \<and> fence_marker (take 7 s) \<longleftrightarrow>
      startsWith s [96, 96, 96] \<and> startsWith_ci (drop 3 s) (str ''json'')"
    using seven three by (auto simp: fence_marker_def t min_def)
  have m3: "3 \<le> length s \<and> fence_marker (take 3 s) \<longleftrightarrow> startsWith s [96, 96, 96]"
    using three n by (auto simp: fence_marker_def)
  show ?thesis
    unfolding head_fence_def using m7 m3 by auto
qed

lemma fence_Cons:
  "replace_all re_fence_json (c # cs) =
     (case head_fence (c # cs) of
        None \<Rightarrow> c # replace_all re_fence_json cs
      | Some n \<Rightarrow> replace_all re_fence_json (drop n (c # cs)))"
  by (simp add: replace_all.simps re_fence_json_def head_fence_eq)

lemma strip_fences_eq: "replace_all re_fence_json t = strip_fences t"
proof (induction t rule: strip_fences.induct)
  case 1
  then show ?case by simp
next
  case (2 c cs)
  then show ?case
    by (cases "head_fence (c # cs)") (simp_all add: fence_Cons)
qed

lemma strip_noise_eq:
  "replace_all re_fence (replace_all re_fence_json (replace_all re_think t)) = strip_noise t"
proof -
  have "replace_all re_fence (replace_all re_fence_json (replace_all re_think t)) =
      replace_all re_fence_json (replace_all re_think t)"
    by (rule fences_once)
  also have "\<dots> = strip_fences (replace_all re_think t)"
    by (rule strip_fences_eq)
  also have "\<dots> = strip_noise t"
    by (simp only: strip_blocks_eq strip_noise_def)
  finally show ?thesis .
qed

subsection \<open>The repair pass\<close>

lemma comma_Cons:
  "replace_all re_trailing_comma (c # cs) =
     (if trailing_comma (c # cs) then replace_all re_trailing_comma (dropWhile is_space cs)
      else c # replace_all re_trailing_comma cs)"
proof (cases "trailing_comma (c # cs)")
  case False
  have "re_trailing_comma (c # cs) = None"
  proof (cases "dropWhile is_space cs")
    case Nil
    then show ?thesis by (simp add: re_trailing_comma_def del: dropWhile_eq_Nil_conv)
  next
    case (Cons d rest)
    with False show ?thesis
      by (auto simp: re_trailing_comma_def trailing_comma_def Let_def)
  qed
  with False show ?thesis by (simp add: replace_all.simps)
next
  case True
  then obtain d rest where c: "c = 44" and d: "dropWhile is_space cs = d # rest"
    "d = 125 \<or> d = 93"
    by (cases "dropWhile is_space cs") (auto simp: trailing_comma_def Let_def)
  have "drop (length (takeWhile is_space cs)) cs = d # rest"
    using d(1) by (simp add: dropWhile_eq_drop)
  then have r: "drop (length (takeWhile is_space cs) + 1) cs = rest"
    by (metis drop_drop drop_Suc_Cons drop0 add.commute One_nat_def plus_1_eq_Suc)
  have m: "re_trailing_comma (c # cs) = Some ([d], length (takeWhile is_space cs) + 1)"
    using c d by (simp add: re_trailing_comma_def)
  have "re_trailing_comma (d # rest) = None"
    using d(2) by (auto simp: re_trailing_comma_def)
  then have "replace_all re_trailing_comma (d # rest) = d # replace_all re_trailing_comma rest"
    by (simp add: replace_all.simps)
  with True m r d(1) show ?thesis
    by (simp add: replace_all.simps)
qed

lemma remove_trailing_commas_eq: "replace_all re_trailing_comma s = remove_trailing_commas s"
  by (induction s rule: remove_trailing_commas.induct) (simp_all add: comma_Cons)

lemma quote_Cons:
  "replace_all re_single_quoted (c # cs) =
     (case single_quoted_value (c # cs) of
        None \<Rightarrow> c # replace_all re_single_quoted cs
      | Some (v, rest) \<Rightarrow> [58, 32, 34] @ v @ [34] @ replace_all re_single_quoted rest)"
proof (cases "single_quoted_value (c # cs)")
  case None
  have "re_single_quoted (c # cs) = None"
  proof (cases "dropWhile is_space cs")
    case Nil
    then show ?thesis by (simp add: re_single_quoted_def del: dropWhile_eq_Nil_conv)
  next
    case (Cons d ds)
    show ?thesis
    proof (cases "c = 58 \<and> d = 39")
      case False
      with Cons show ?thesis by (auto simp: re_single_quoted_def)
    next
      case True
      with None Cons have "39 \<notin> set ds"
        by (auto simp: single_quoted_value_def Let_def split: if_splits)
      then have "dropWhile (\<lambda>x. x \<noteq> 39) ds = []"
        by auto
      with True Cons show ?thesis
        by (simp add: re_single_quoted_def Let_def del: dropWhile_eq_Nil_conv)
    qed
  qed
  with None show ?thesis by (simp add: replace_all.simps)
next
  case (Some m)
  let ?ws = "takeWhile is_space cs"
  obtain v rest where a: "m = (v, rest)" by (cases m)
  from Some a obtain ds where c: "c = 58" and d: "dropWhile is_space cs = 39 # ds"
    and q: "39 \<in> set ds" and v: "v = takeWhile (\<lambda>x. x \<noteq> 39) ds"
    and rest: "rest = tl (dropWhile (\<lambda>x. x \<noteq> 39) ds)"
    by (cases "dropWhile is_space cs")
      (auto simp: single_quoted_value_def Let_def split: if_splits)
  from q obtain e es where e: "dropWhile (\<lambda>x. x \<noteq> 39) ds = e # es"
    by (cases "dropWhile (\<lambda>x. x \<noteq> 39) ds") (auto simp: dropWhile_eq_Nil_conv)
  have "cs = ?ws @ 39 # ds"
    using d by (metis takeWhile_dropWhile_id)
  moreover have "ds = v @ e # es"
    using e v by (metis takeWhile_dropWhile_id)
  ultimately have "cs = (?ws @ 39 # v @ [e]) @ es" by simp
  then have "drop (length (?ws @ 39 # v @ [e])) cs = es"
    by (metis append_eq_conv_conj)
  then have k: "drop (length ?ws + 1 + length v + 1) cs = es"
    by (simp add: add.commute add.left_commute)
  have m: "re_single_quoted (c # cs) =
      Some (str '': '' @ quoted v, length ?ws + 1 + length v + 1)"
    using c d e v by (simp add: re_single_quoted_def Let_def)
  have t: "str '': '' @ quoted v = [58, 32, 34] @ v @ [34]"
    by (simp add: str_def quoted_def)
  from Some a m k rest e t show ?thesis
    by (simp add: replace_all.simps)
qed

lemma double_quote_values_eq: "replace_all re_single_quoted s = double_quote_values s"
proof (induction s rule: double_quote_values.induct)
  case 1
  then show ?case by simp
next
  case (2 c cs)
  then show ?case
    by (cases "single_quoted_value (c # cs)") (auto simp: quote_Cons)
qed

lemma straighten_quotes_eq: "replace_all re_smart_quote s = straighten_quotes s"
  by (induction s) (simp_all add: replace_all.simps re_smart_quote_def straighten_quotes_def)

lemma repair_eq:
  "replace_all re_smart_quote (replace_all re_single_quoted (replace_all re_trailing_comma s)) =
     repair s"
  by (simp add: repair_def remove_trailing_commas_eq double_quote_values_eq straighten_quotes_eq)

text \<open>
  C3. \<open>extractJson\<close> never throws, and its result is the reference definition's for every
  input and every \<open>JSON.parse\<close>: null for a nullish or empty input; otherwise the
  chain-of-thought blocks are stripped (\<open>strip_blocks\<close>), then the fence markers
  (\<open>strip_fences\<close>), and the text is trimmed; null when an opening or a closing brace is
  missing; otherwise the strict parse of the text from the first opening to the last
  closing brace, or, when that fails, the parse of its repair (trailing commas removed,
  then single-quoted values written with double quotes, then curly quotes straightened),
  or, when that fails too, null. The reference definition is written without the regular
  expressions of the source: the lemmas above show that each \<open>replace\<close> of the source
  computes the corresponding step, and that its third \<open>replace\<close> (bare fences) finds
  nothing left to remove.
\<close>

theorem extractJson_refines: "extractJson rt text0 = Inr (extractJson_spec rt text0)"
proof (cases text0)
  case None
  then show ?thesis by (simp add: extractJson_def extractJson_spec_def)
next
  case (Some t0)
  let ?t = "trim (strip_noise t0)"
  show ?thesis
  proof (cases "t0 = []")
    case True
    with Some show ?thesis by (simp add: extractJson_def extractJson_spec_def)
  next
    case False
    show ?thesis
    proof (cases "brace_span ?t")
      case None
      then have "indexOf ?t 123 = - 1 \<or> lastIndexOf ?t 125 = - 1"
        by (simp add: candidate_eq(1))
      with Some False None show ?thesis
        by (simp add: extractJson_def extractJson_spec_def strip_noise_eq Let_def)
    next
      case (Some s)
      then have ok: "\<not> (indexOf ?t 123 = - 1 \<or> lastIndexOf ?t 125 = - 1)"
        by (simp add: candidate_eq(1))
      from Some have sl: "slice ?t (indexOf ?t 123) (lastIndexOf ?t 125 + 1) = s"
        by (rule candidate_eq(2))
      from \<open>text0 = Some t0\<close> False Some ok sl show ?thesis
        by (simp add: extractJson_def extractJson_spec_def strip_noise_eq Let_def
            strict_parse_def repair_eq split: sum.splits)
    qed
  qed
qed

lemmas json_eval =
  extractJson_def Let_def trim_def replace_all.simps re_think_def re_fence_json_def re_fence_def
  startsWith_def startsWith_ci_def upper_ascii_def lastIndexOf_def slice_def example_runtime_def
  quoted_def str_def re_trailing_comma_def re_single_quoted_def re_smart_quote_def is_space_def

theorem extractJson_refines_witness:
  "extractJson_spec example_runtime
     (Some ([96, 96, 96] @ str ''json'' @ [10] @
            str ''{'' @ quoted (str ''type'') @ str '':'' @ quoted (str ''ask'') @ str '','' @
            quoted (str ''question'') @ str '':'' @ quoted (str ''Is it real?'') @ str ''}'' @
            [10] @ [96, 96, 96]))
     = Obj [(str ''type'', Str (str ''ask'')), (str ''question'', Str (str ''Is it real?''))] \<and>
   extractJson_spec example_runtime
     (Some (str ''<think>reasoning...</think>{'' @ quoted (str ''type'') @ str '':'' @
            quoted (str ''final'') @ str '','' @ quoted (str ''guess'') @ str '':'' @
            quoted (str ''Einstein'') @ str '','' @ quoted (str ''confidence'') @ str '':0.9}''))
     = Obj [(str ''type'', Str (str ''final'')), (str ''guess'', Str (str ''Einstein'')),
            (str ''confidence'', Num (Fin (9 / 10)))] \<and>
   extractJson_spec example_runtime
     (Some (str ''<Think>is it {x}?</THINK>{'' @ quoted (str ''type'') @ str '':'' @
            quoted (str ''final'') @ str '','' @ quoted (str ''guess'') @ str '':'' @
            quoted (str ''Einstein'') @ str '','' @ quoted (str ''confidence'') @ str '':0.9}''))
     = Obj [(str ''type'', Str (str ''final'')), (str ''guess'', Str (str ''Einstein'')),
            (str ''confidence'', Num (Fin (9 / 10)))] \<and>
   extractJson_spec example_runtime
     (Some (str ''{'' @ quoted (str ''type'') @ str '':'' @ quoted (str ''ask'') @ str '','' @
            [96, 96, 96] @ str ''JSON'' @
            quoted (str ''question'') @ str '':'' @ quoted (str ''Is it real?'') @ str ''}''))
     = Obj [(str ''type'', Str (str ''ask'')), (str ''question'', Str (str ''Is it real?''))] \<and>
   extractJson_spec example_runtime
     (Some (str ''{'' @ quoted (str ''type'') @ str '':'' @ quoted (str ''guess'') @ str '','' @
            quoted (str ''guess'') @ str '':'' @ quoted (str ''Napoleon'') @ str '', '' @
            quoted (str ''confidence'') @ str '': 0.8,}''))
     = Obj [(str ''type'', Str (str ''guess'')), (str ''guess'', Str (str ''Napoleon'')),
            (str ''confidence'', Num (Fin (8 / 10)))] \<and>
   extractJson_spec example_runtime
     (Some (str ''{'' @ quoted (str ''type'') @ str '':'' @ quoted (str ''ask'') @ str '','' @
            quoted (str ''question'') @ str '':  '' @ [39] @ str ''Is it real?'' @ [39] @
            str ''}''))
     = Obj [(str ''type'', Str (str ''ask'')), (str ''question'', Str (str ''Is it real?''))] \<and>
   extractJson_spec example_runtime
     (Some (str ''{'' @ [8220] @ str ''type'' @ [8221] @ str '':'' @
            [8220] @ str ''ask'' @ [8221] @ str '','' @
            [8220] @ str ''question'' @ [8221] @ str '':'' @
            [8220] @ str ''Is it real?'' @ [8221] @ str ''}''))
     = Obj [(str ''type'', Str (str ''ask'')), (str ''question'', Str (str ''Is it real?''))] \<and>
   extractJson_spec example_runtime (Some (str ''no json here'')) = Null \<and>
   extractJson_spec example_runtime (Some (str ''} {'')) = Null \<and>
   extractJson_spec example_runtime (Some []) = Null \<and>
   extractJson_spec example_runtime None = Null"
proof -
  let ?rt = example_runtime
  let ?ask = "Obj [(str ''type'', Str (str ''ask'')), (str ''question'', Str (str ''Is it real?''))]"
  let ?final = "Obj [(str ''type'', Str (str ''final'')), (str ''guess'', Str (str ''Einstein'')),
            (str ''confidence'', Num (Fin (9 / 10)))]"
  let ?fenced = "Some ([96, 96, 96] @ str ''json'' @ [10] @
            str ''{'' @ quoted (str ''type'') @ str '':'' @ quoted (str ''ask'') @ str '','' @
            quoted (str ''question'') @ str '':'' @ quoted (str ''Is it real?'') @ str ''}'' @
            [10] @ [96, 96, 96])"
  let ?think = "Some (str ''<think>reasoning...</think>{'' @ quoted (str ''type'') @ str '':'' @
            quoted (str ''final'') @ str '','' @ quoted (str ''guess'') @ str '':'' @
            quoted (str ''Einstein'') @ str '','' @ quoted (str ''confidence'') @ str '':0.9}'')"
  let ?braces = "Some (str ''<Think>is it {x}?</THINK>{'' @ quoted (str ''type'') @ str '':'' @
            quoted (str ''final'') @ str '','' @ quoted (str ''guess'') @ str '':'' @
            quoted (str ''Einstein'') @ str '','' @ quoted (str ''confidence'') @ str '':0.9}'')"
  let ?inner = "Some (str ''{'' @ quoted (str ''type'') @ str '':'' @ quoted (str ''ask'') @
            str '','' @ [96, 96, 96] @ str ''JSON'' @
            quoted (str ''question'') @ str '':'' @ quoted (str ''Is it real?'') @ str ''}'')"
  let ?comma = "Some (str ''{'' @ quoted (str ''type'') @ str '':'' @ quoted (str ''guess'') @ str '','' @
            quoted (str ''guess'') @ str '':'' @ quoted (str ''Napoleon'') @ str '', '' @
            quoted (str ''confidence'') @ str '': 0.8,}'')"
  let ?single = "Some (str ''{'' @ quoted (str ''type'') @ str '':'' @ quoted (str ''ask'') @
            str '','' @ quoted (str ''question'') @ str '':  '' @ [39] @ str ''Is it real?'' @
            [39] @ str ''}'')"
  let ?curly = "Some (str ''{'' @ [8220] @ str ''type'' @ [8221] @ str '':'' @
            [8220] @ str ''ask'' @ [8221] @ str '','' @
            [8220] @ str ''question'' @ [8221] @ str '':'' @
            [8220] @ str ''Is it real?'' @ [8221] @ str ''}'')"
  have 1: "extractJson ?rt ?fenced = Inr ?ask"
    by (simp add: json_eval)
  have 2: "extractJson ?rt ?think = Inr ?final"
    by (simp add: json_eval)
  have 3: "extractJson ?rt ?braces = Inr ?final"
    by (simp add: json_eval)
  have 4: "extractJson ?rt ?inner = Inr ?ask"
    by (simp add: json_eval)
  have 5: "extractJson ?rt ?comma =
      Inr (Obj [(str ''type'', Str (str ''guess'')), (str ''guess'', Str (str ''Napoleon'')),
            (str ''confidence'', Num (Fin (8 / 10)))])"
    by (simp add: json_eval)
  have 6: "extractJson ?rt ?single = Inr ?ask"
    by (simp add: json_eval)
  have 7: "extractJson ?rt ?curly = Inr ?ask"
    by (simp add: json_eval)
  have 8: "extractJson ?rt (Some (str ''no json here'')) = Inr Null"
    by (simp add: json_eval)
  have 9: "extractJson ?rt (Some (str ''} {'')) = Inr Null"
    by (simp add: json_eval)
  have 10: "extractJson ?rt (Some []) = Inr Null"
    by (simp add: json_eval)
  have 11: "extractJson ?rt None = Inr Null"
    by (simp add: json_eval)
  from 1 extractJson_refines [of ?rt ?fenced]
  have s1: "extractJson_spec ?rt ?fenced = ?ask"
    by simp
  from 2 extractJson_refines [of ?rt ?think]
  have s2: "extractJson_spec ?rt ?think = ?final"
    by simp
  from 3 extractJson_refines [of ?rt ?braces]
  have s3: "extractJson_spec ?rt ?braces = ?final"
    by simp
  from 4 extractJson_refines [of ?rt ?inner]
  have s4: "extractJson_spec ?rt ?inner = ?ask"
    by simp
  from 5 extractJson_refines [of ?rt ?comma]
  have s5: "extractJson_spec ?rt ?comma =
      Obj [(str ''type'', Str (str ''guess'')), (str ''guess'', Str (str ''Napoleon'')),
            (str ''confidence'', Num (Fin (8 / 10)))]"
    by simp
  from 6 extractJson_refines [of ?rt ?single]
  have s6: "extractJson_spec ?rt ?single = ?ask"
    by simp
  from 7 extractJson_refines [of ?rt ?curly]
  have s7: "extractJson_spec ?rt ?curly = ?ask"
    by simp
  from 8 extractJson_refines [of ?rt "Some (str ''no json here'')"]
  have s8: "extractJson_spec ?rt (Some (str ''no json here'')) = Null"
    by simp
  from 9 extractJson_refines [of ?rt "Some (str ''} {'')"]
  have s9: "extractJson_spec ?rt (Some (str ''} {'')) = Null"
    by simp
  from 10 extractJson_refines [of ?rt "Some []"]
  have s10: "extractJson_spec ?rt (Some []) = Null"
    by simp
  from 11 extractJson_refines [of ?rt None]
  have s11: "extractJson_spec ?rt None = Null"
    by simp
  from s1 s2 s3 s4 s5 s6 s7 s8 s9 s10 s11 show ?thesis by blast
qed

end
